theory Spec2Isabelle
  imports Complex_Main "HOL-Library.Sublist" "HOL-Library.AList" "HOL-Library.Multiset"
    "HOL-Library.Option_ord"
begin

section \<open>Python strings\<close>

text \<open>
  A Python \<open>str\<close> is modelled as the list of its code points, for the code points below 256
  (type \<^typ>\<open>char\<close>). On that range \<open>str.strip\<close> and \<open>str.lower\<close> are as CPython defines
  them, and so is \<open>str.upper\<close> except at the two characters whose capitals lie beyond the
  range. All literals of the program are ASCII.
\<close>

definition py_isspace :: "char \<Rightarrow> bool" where
  \<comment> \<open>the code points below 256 that \<open>str.strip()\<close> removes: TAB to CR, FS to US, space,
      NEL (0x85) and the no-break space (0xA0)\<close>
  "py_isspace c =
     (let n = (of_char c :: nat)
      in (9 \<le> n \<and> n \<le> 13) \<or> (28 \<le> n \<and> n \<le> 32) \<or> n = 133 \<or> n = 160)"

definition py_strip :: "string \<Rightarrow> string" where
  "py_strip s = rev (dropWhile py_isspace (rev (dropWhile py_isspace s)))"

definition upper_char :: "char \<Rightarrow> string" where
  \<comment> \<open>\<open>a\<close> to \<open>z\<close> and the Latin-1 small letters lose 32; the sharp s (0xDF) becomes \<open>SS\<close>.
      The capitals of 0xB5 and 0xFF lie beyond code point 255 and are not ASCII: the two
      characters are left as they are.\<close>
  "upper_char c =
     (let n = (of_char c :: nat)
      in if (97 \<le> n \<and> n \<le> 122) \<or> (224 \<le> n \<and> n \<le> 254 \<and> n \<noteq> 247)
         then [char_of (n - 32)]
         else if n = 223 then ''SS''
         else [c])"

definition py_upper :: "string \<Rightarrow> string" where
  "py_upper s = concat (map upper_char s)"

definition lower_char :: "char \<Rightarrow> char" where
  \<comment> \<open>\<open>A\<close> to \<open>Z\<close> and the Latin-1 capital letters gain 32 (0xD7 is the multiplication sign)\<close>
  "lower_char c =
     (let n = (of_char c :: nat)
      in if (65 \<le> n \<and> n \<le> 90) \<or> (192 \<le> n \<and> n \<le> 222 \<and> n \<noteq> 215)
         then char_of (n + 32)
         else c)"

definition py_lower :: "string \<Rightarrow> string" where
  "py_lower s = map lower_char s"

definition startswith :: "string \<Rightarrow> string \<Rightarrow> bool" where
  "startswith s p = prefix p s"

definition endswith :: "string \<Rightarrow> string \<Rightarrow> bool" where
  "endswith s p = suffix p s"

definition py_in :: "string \<Rightarrow> string \<Rightarrow> bool" where
  \<comment> \<open>\<open>sub in s\<close> on strings: \<open>sub\<close> occurs in \<open>s\<close> as a contiguous block\<close>
  "py_in sub s = sublist sub s"

section \<open>Errors\<close>

datatype error =
    ValueError string
  | RequestException string
  | IndexError
  | TypeError
  | SQLAlchemyError

section \<open>The query engine (gemini\_query.py)\<close>

subsection \<open>\<open>_clean_sql_response\<close>\<close>

fun drop_newline :: "string \<Rightarrow> string" where
  \<comment> \<open>the \<open>\n?\<close> at the end of both patterns\<close>
  "drop_newline [] = []"
| "drop_newline (c # cs) = (if c = CHR 0x0A then cs else c # cs)"

text \<open>
  \<open>re.sub(lit + '\n?', '', s)\<close> for a literal \<open>lit\<close>: the string is scanned from the left,
  every match is dropped and the scan goes on behind it. (With an empty literal the pattern
  is \<open>\n?\<close> alone, which deletes the newlines.)
\<close>

function re_sub_fence :: "string \<Rightarrow> string \<Rightarrow> string" where
  "re_sub_fence lit [] = []"
| "re_sub_fence lit (c # cs) =
     (if lit = [] then filter (\<lambda>x. x \<noteq> CHR 0x0A) (c # cs)
      else if prefix lit (c # cs)
      then re_sub_fence lit (drop_newline (drop (length lit) (c # cs)))
      else c # re_sub_fence lit cs)"
  by pat_completeness auto
termination
proof (relation "measure (\<lambda>(lit, s). length s)")
  show "wf (measure (\<lambda>(lit, s). length s))" by simp
next
  fix lit :: string and c cs
  assume "lit \<noteq> []" "prefix lit (c # cs)"
  then have "length (drop (length lit) (c # cs)) < length (c # cs)"
    by (cases lit) auto
  moreover have "length (drop_newline u) \<le> length u" for u
    by (cases u) auto
  ultimately have "length (drop_newline (drop (length lit) (c # cs))) < length (c # cs)"
    by (rule le_less_trans [rotated])
  then show "((lit, drop_newline (drop (length lit) (c # cs))), (lit, c # cs))
      \<in> measure (\<lambda>(lit, s). length s)"
    by simp
next
  fix lit :: string and c cs
  show "((lit, cs), (lit, c # cs)) \<in> measure (\<lambda>(lit, s). length s)" by simp
qed

definition clean_sql_response :: "string \<Rightarrow> string" where
  "clean_sql_response response =
     (let r1 = re_sub_fence ''```sql'' response;
          r2 = re_sub_fence ''```'' r1;
          r3 = py_strip r2
      in if \<not> endswith r3 '';'' then r3 @ '';'' else r3)"

subsection \<open>\<open>_execute_sql_query\<close>\<close>

text \<open>
  The database behind \<open>db_manager.execute_query\<close> is an oracle that answers a statement
  with a data frame or raises; the handle records the statements it was given.
\<close>

record 'df sqldb =
  answer :: "string \<Rightarrow> error + 'df"
  executed :: "string list"

definition execute_query :: "'df sqldb \<Rightarrow> string \<Rightarrow> (error + 'df) \<times> 'df sqldb" where
  "execute_query db query = (answer db query, db\<lparr>executed := executed db @ [query]\<rparr>)"

definition execute_sql_query :: "'df sqldb \<Rightarrow> string \<Rightarrow> (error + 'df) \<times> 'df sqldb" where
  \<comment> \<open>the \<open>except\<close> clause logs and re-raises, so both errors reach the caller unchanged\<close>
  "execute_sql_query db sql_query =
     (if \<not> startswith (py_upper (py_strip sql_query)) ''SELECT''
      then (Inl (ValueError ''Only SELECT queries are allowed''), db)
      else execute_query db sql_query)"

subsection \<open>\<open>_is_analytical_query\<close>\<close>

definition analytical_keywords :: "string list" where
  "analytical_keywords =
     [''roas'', ''cac'', ''cpr'', ''ctr trend'', ''vs'', ''compared to'', ''comparison'',
      ''best performing'', ''worst performing'', ''burning budget'', ''low performance'',
      ''drops'', ''spikes'', ''anomalies'', ''top creatives'', ''learning phase'',
      ''limited by budget'', ''audience size'', ''impact of changes'', ''budget shifts'',
      ''over-spending'', ''under-spending'', ''unexpected spike'', ''same day last week'',
      ''yesterday vs today'', ''past 7 days'', ''trend analysis'', ''performance analysis'']"

definition is_analytical_query :: "string \<Rightarrow> bool" where
  "is_analytical_query user_query =
     (let query_lower = py_lower user_query
      in list_ex (\<lambda>keyword. py_in keyword query_lower) analytical_keywords)"

section \<open>Python values\<close>

text \<open>
  The JSON values of the API, and the field values of the records made from them. A
  \<open>float\<close> is modelled as a real number and a \<open>datetime\<close> as a count of microseconds; no
  property below depends on floating-point rounding. A \<open>dict\<close> is an association list in
  insertion order.
\<close>

datatype pyval =
    PNone
  | PBool bool
  | PInt int
  | PFloat real
  | PStr string
  | PDateTime int
  | PList "pyval list"
  | PDict "(string \<times> pyval) list"

type_synonym pydict = "(string \<times> pyval) list"

definition dict_get :: "pydict \<Rightarrow> string \<Rightarrow> pyval" where
  \<comment> \<open>\<open>d.get(k)\<close>\<close>
  "dict_get d k = (case map_of d k of Some v \<Rightarrow> v | None \<Rightarrow> PNone)"

definition dict_get_default :: "pydict \<Rightarrow> string \<Rightarrow> pyval \<Rightarrow> pyval" where
  \<comment> \<open>\<open>d.get(k, default)\<close>\<close>
  "dict_get_default d k dflt = (case map_of d k of Some v \<Rightarrow> v | None \<Rightarrow> dflt)"

definition dict_update :: "pydict \<Rightarrow> pydict \<Rightarrow> pydict" where
  \<comment> \<open>\<open>d.update(other)\<close>\<close>
  "dict_update d other = foldl (\<lambda>acc (k, v). AList.update k v acc) d other"

fun truthy :: "pyval \<Rightarrow> bool" where
  "truthy PNone = False"
| "truthy (PBool b) = b"
| "truthy (PInt i) = (i \<noteq> 0)"
| "truthy (PFloat x) = (x \<noteq> 0)"
| "truthy (PStr s) = (s \<noteq> [])"
| "truthy (PDateTime t) = True"
| "truthy (PList xs) = (xs \<noteq> [])"
| "truthy (PDict d) = (d \<noteq> [])"

text \<open>
  What the program takes from Python's library and from its environment: the builtins
  \<open>float\<close> and \<open>int\<close> (\<open>None\<close> when they raise), \<open>datetime.strptime\<close> (\<open>None\<close> when it
  raises), \<open>str\<close> on the values that are not text, \<open>json.dumps\<close> (\<open>None\<close> when it raises),
  and the readings of the clock, numbered in the order \<open>datetime.now()\<close> is called.
\<close>

record pylib =
  float_of :: "pyval \<Rightarrow> real option"
  int_of :: "pyval \<Rightarrow> int option"
  strptime :: "string \<Rightarrow> string \<Rightarrow> int option"
  str_of :: "pyval \<Rightarrow> string"
  json_dumps :: "pyval \<Rightarrow> string option"
  now :: "nat \<Rightarrow> int"

fun show_nat :: "nat \<Rightarrow> string" where
  "show_nat n = (if n < 10 then [char_of (48 + n)] else show_nat (n div 10) @ [char_of (48 + n mod 10)])"

declare show_nat.simps [simp del]

definition show_int :: "int \<Rightarrow> string" where
  "show_int i = (if i < 0 then ''-'' @ show_nat (nat (- i)) else show_nat (nat i))"

definition py_str :: "pylib \<Rightarrow> pyval \<Rightarrow> string" where
  \<comment> \<open>how an f-string renders a value\<close>
  "py_str lib v =
     (case v of
        PStr s \<Rightarrow> s
      | PNone \<Rightarrow> ''None''
      | PBool b \<Rightarrow> (if b then ''True'' else ''False'')
      | PInt i \<Rightarrow> show_int i
      | _ \<Rightarrow> str_of lib v)"

fun py_join :: "string \<Rightarrow> string list \<Rightarrow> string" where
  "py_join sep [] = []"
| "py_join sep [x] = x"
| "py_join sep (x # y # ys) = x @ sep @ py_join sep (y # ys)"

text \<open>\<open>s.split(sep)\<close> for a separator that is not empty (every separator of the program is a
  literal); \<open>cur\<close> is the piece being read.\<close>

function py_split_from :: "string \<Rightarrow> string \<Rightarrow> string \<Rightarrow> string list" where
  "py_split_from sep cur [] = [cur]"
| "py_split_from sep cur (c # cs) =
     (if sep \<noteq> [] \<and> prefix sep (c # cs)
      then cur # py_split_from sep [] (drop (length sep) (c # cs))
      else py_split_from sep (cur @ [c]) cs)"
  by pat_completeness auto
termination
proof (relation "measure (\<lambda>(sep, cur, s). length s)")
  show "wf (measure (\<lambda>(sep, cur, s). length s))" by simp
next
  fix sep cur :: string and c cs
  assume "sep \<noteq> [] \<and> prefix sep (c # cs)"
  then have "length (drop (length sep) (c # cs)) < length (c # cs)"
    by (cases sep) auto
  then show "((sep, [], drop (length sep) (c # cs)), (sep, cur, c # cs))
      \<in> measure (\<lambda>(sep, cur, s). length s)"
    by simp
next
  fix sep cur :: string and c cs
  show "((sep, cur @ [c], cs), (sep, cur, c # cs)) \<in> measure (\<lambda>(sep, cur, s). length s)"
    by simp
qed

definition py_split :: "string \<Rightarrow> string \<Rightarrow> string list" where
  "py_split s sep = py_split_from sep [] s"

definition list_get :: "'a list \<Rightarrow> nat \<Rightarrow> error + 'a" where
  \<comment> \<open>\<open>xs[i]\<close> for \<open>i \<ge> 0\<close>\<close>
  "list_get xs i = (if i < length xs then Inr (xs ! i) else Inl IndexError)"

section \<open>The API client (facebook\_api.py)\<close>

subsection \<open>The field parsers\<close>

definition parse_datetime :: "pylib \<Rightarrow> pyval \<Rightarrow> pyval" where
  \<comment> \<open>\<open>strptime\<close> raises on a value that is not a \<open>str\<close>; both \<open>except\<close> clauses catch
      everything\<close>
  "parse_datetime lib date_string =
     (if \<not> truthy date_string then PNone
      else case date_string of
        PStr s \<Rightarrow>
          (case strptime lib s ''%Y-%m-%dT%H:%M:%S%z'' of
             Some t \<Rightarrow> PDateTime t
           | None \<Rightarrow>
              (case strptime lib s ''%Y-%m-%d %H:%M:%S'' of
                 Some t \<Rightarrow> PDateTime t
               | None \<Rightarrow> PNone))
      | _ \<Rightarrow> PNone)"

definition parse_date :: "pylib \<Rightarrow> pyval \<Rightarrow> pyval" where
  "parse_date lib date_string =
     (if \<not> truthy date_string then PNone
      else case date_string of
        PStr s \<Rightarrow>
          (case strptime lib s ''%Y-%m-%d'' of
             Some t \<Rightarrow> PDateTime t
           | None \<Rightarrow> PNone)
      | _ \<Rightarrow> PNone)"

definition parse_float :: "pylib \<Rightarrow> pyval \<Rightarrow> pyval" where
  "parse_float lib v =
     (if v = PNone \<or> v = PStr '''' then PFloat 0
      else case float_of lib v of
        Some x \<Rightarrow> PFloat x
      | None \<Rightarrow> PFloat 0)"

definition parse_int :: "pylib \<Rightarrow> pyval \<Rightarrow> pyval" where
  "parse_int lib v =
     (if v = PNone \<or> v = PStr '''' then PInt 0
      else case int_of lib v of
        Some i \<Rightarrow> PInt i
      | None \<Rightarrow> PInt 0)"

subsection \<open>Requests and pagination\<close>

text \<open>
  A response of the Graph API is a JSON object: its \<open>data\<close>, when present, is an array of
  objects, its \<open>paging\<close>, when present, is an object, and the \<open>next\<close> of that, when present,
  is a URL.
\<close>

datatype paging = Paging (next_url: "string option")

record page =
  data_field :: "pydict list option"
  paging :: "paging option"

text \<open>
  The server is a script: the outcomes of the requests to come, each a page or an error
  that \<open>requests\<close> raises. A request sent when the script is used up fails. The requests
  sent are recorded with their URL and query parameters.
\<close>

record world =
  access_token :: string
  script :: "(error + page) list"
  requests :: "(string \<times> pydict) list"

definition api_version :: string where
  "api_version = ''v18.0''"

definition base_url :: string where
  "base_url = ''https://graph.facebook.com/'' @ api_version"

definition limit :: int where
  "limit = 500"

definition make_request ::
  "string \<Rightarrow> pydict option \<Rightarrow> world \<Rightarrow> (error + page) \<times> world" where
  "make_request endpoint params w =
     (let url = base_url @ ''/'' @ endpoint;
          default_params = [(''access_token'', PStr (access_token w)), (''limit'', PInt limit)];
          sent = (case params of
                    None \<Rightarrow> default_params
                  | Some p \<Rightarrow> if p \<noteq> [] then dict_update default_params p else default_params);
          w1 = w\<lparr>requests := requests w @ [(url, sent)]\<rparr>
      in case script w of
           [] \<Rightarrow> (Inl (RequestException ''no response''), w1)
         | outcome # rest \<Rightarrow> (outcome, w1\<lparr>script := rest\<rparr>))"

definition after_param :: "string \<Rightarrow> error + string option" where
  \<comment> \<open>\<open>next_url.split('after=')[1].split('&')[0] if 'after=' in next_url else None\<close>\<close>
  "after_param url =
     (if py_in ''after='' url
      then (case list_get (py_split url ''after='') 1 of
              Inl e \<Rightarrow> Inl e
            | Inr x \<Rightarrow>
               (case list_get (py_split x ''&'') 0 of
                  Inl e \<Rightarrow> Inl e
                | Inr y \<Rightarrow> Inr (Some y)))
      else Inr None)"

text \<open>
  The \<open>while\<close> loop of \<open>_paginate_request\<close>, entered with the response in hand and the rows
  gathered so far. \<open>if after_param:\<close> is false for \<open>None\<close> and for the empty string. The
  pause between two requests does not change the result and is left out.
\<close>

function paginate_loop ::
  "string \<Rightarrow> pydict option \<Rightarrow> page \<Rightarrow> pydict list \<Rightarrow> world
     \<Rightarrow> (error + pydict list) \<times> world" where
  "paginate_loop endpoint params response all_data w =
     (case paging response of
        Some (Paging (Some url)) \<Rightarrow>
          (case after_param url of
             Inl e \<Rightarrow> (Inl e, w)
           | Inr None \<Rightarrow> (Inr all_data, w)
           | Inr (Some a) \<Rightarrow>
               if a = [] then (Inr all_data, w)
               else
                 (let paginated_params =
                        AList.update ''after'' (PStr a) (case params of Some p \<Rightarrow> p | None \<Rightarrow> [])
                  in case make_request endpoint (Some paginated_params) w of
                       (Inl e, w') \<Rightarrow> (Inl e, w')
                     | (Inr response', w') \<Rightarrow>
                         (case data_field response' of
                            Some d \<Rightarrow> paginate_loop endpoint params response' (all_data @ d) w'
                          | None \<Rightarrow> (Inr all_data, w'))))
      | _ \<Rightarrow> (Inr all_data, w))"
  by pat_completeness auto
termination
  by (relation "measure (\<lambda>(endpoint, params, response, all_data, w). length (script w))")
     (auto simp: make_request_def Let_def split: list.splits if_splits)

declare paginate_loop.simps [simp del]

definition paginate_request ::
  "string \<Rightarrow> pydict option \<Rightarrow> world \<Rightarrow> (error + pydict list) \<times> world" where
  \<comment> \<open>the \<open>except\<close> clause logs and re-raises\<close>
  "paginate_request endpoint params w =
     (case make_request endpoint params w of
        (Inl e, w') \<Rightarrow> (Inl e, w')
      | (Inr response, w') \<Rightarrow>
          paginate_loop endpoint params response
            (case data_field response of Some d \<Rightarrow> d | None \<Rightarrow> []) w')"

subsection \<open>The canned sample data\<close>

definition days :: "int \<Rightarrow> int" where
  \<comment> \<open>\<open>timedelta(days=k)\<close>, in microseconds\<close>
  "days k = k * 86400000000"

definition get_sample_campaigns :: "pylib \<Rightarrow> string \<Rightarrow> pydict list" where
  "get_sample_campaigns lib account_id =
     [[(''id'', PStr ''camp_001''),
       (''account_id'', PStr account_id),
       (''name'', PStr ''Holiday Sales Campaign''),
       (''status'', PStr ''ACTIVE''),
       (''objective'', PStr ''CONVERSIONS''),
       (''created_time'', PDateTime (now lib 0 - days 30)),
       (''updated_time'', PDateTime (now lib 1 - days 1)),
       (''start_time'', PDateTime (now lib 2 - days 30)),
       (''stop_time'', PNone),
       (''budget_remaining'', PFloat 5000),
       (''daily_budget'', PFloat 100),
       (''lifetime_budget'', PNone),
       (''data'', PDict [])],
      [(''id'', PStr ''camp_002''),
       (''account_id'', PStr account_id),
       (''name'', PStr ''Brand Awareness Campaign''),
       (''status'', PStr ''ACTIVE''),
       (''objective'', PStr ''BRAND_AWARENESS''),
       (''created_time'', PDateTime (now lib 3 - days 20)),
       (''updated_time'', PDateTime (now lib 4 - days 2)),
       (''start_time'', PDateTime (now lib 5 - days 20)),
       (''stop_time'', PNone),
       (''budget_remaining'', PFloat 3000),
       (''daily_budget'', PFloat 75),
       (''lifetime_budget'', PNone),
       (''data'', PDict [])]]"

definition get_sample_adsets :: "pylib \<Rightarrow> string \<Rightarrow> pydict list" where
  "get_sample_adsets lib account_id =
     [[(''id'', PStr ''adset_001''),
       (''account_id'', PStr account_id),
       (''campaign_id'', PStr ''camp_001''),
       (''name'', PStr ''Holiday Sales - Desktop''),
       (''status'', PStr ''ACTIVE''),
       (''optimization_goal'', PStr ''CONVERSIONS''),
       (''billing_event'', PStr ''IMPRESSIONS''),
       (''bid_amount'', PFloat 2.50),
       (''daily_budget'', PFloat 50),
       (''lifetime_budget'', PNone),
       (''start_time'', PDateTime (now lib 0 - days 30)),
       (''end_time'', PNone),
       (''created_time'', PDateTime (now lib 1 - days 30)),
       (''updated_time'', PDateTime (now lib 2 - days 1)),
       (''data'', PDict [])],
      [(''id'', PStr ''adset_002''),
       (''account_id'', PStr account_id),
       (''campaign_id'', PStr ''camp_001''),
       (''name'', PStr ''Holiday Sales - Mobile''),
       (''status'', PStr ''ACTIVE''),
       (''optimization_goal'', PStr ''CONVERSIONS''),
       (''billing_event'', PStr ''IMPRESSIONS''),
       (''bid_amount'', PFloat 2.00),
       (''daily_budget'', PFloat 50),
       (''lifetime_budget'', PNone),
       (''start_time'', PDateTime (now lib 3 - days 30)),
       (''end_time'', PNone),
       (''created_time'', PDateTime (now lib 4 - days 30)),
       (''updated_time'', PDateTime (now lib 5 - days 1)),
       (''data'', PDict [])]]"

definition get_sample_ads :: "pylib \<Rightarrow> string \<Rightarrow> pydict list" where
  "get_sample_ads lib account_id =
     [[(''id'', PStr ''ad_001''),
       (''account_id'', PStr account_id),
       (''campaign_id'', PStr ''camp_001''),
       (''adset_id'', PStr ''adset_001''),
       (''name'', PStr ''Holiday Sale - Desktop Video''),
       (''status'', PStr ''ACTIVE''),
       (''created_time'', PDateTime (now lib 0 - days 30)),
       (''updated_time'', PDateTime (now lib 1 - days 1)),
       (''data'', PDict [])],
      [(''id'', PStr ''ad_002''),
       (''account_id'', PStr account_id),
       (''campaign_id'', PStr ''camp_001''),
       (''adset_id'', PStr ''adset_002''),
       (''name'', PStr ''Holiday Sale - Mobile Image''),
       (''status'', PStr ''ACTIVE''),
       (''created_time'', PDateTime (now lib 2 - days 30)),
       (''updated_time'', PDateTime (now lib 3 - days 1)),
       (''data'', PDict [])]]"

definition sample_insight_pair :: "pylib \<Rightarrow> string \<Rightarrow> nat \<Rightarrow> pydict list" where
  \<comment> \<open>the two records of one pass of the loop \<open>for i in range(30)\<close>; \<open>date\<close> is the
      \<open>i\<close>-th reading of the clock less \<open>i\<close> days\<close>
  "sample_insight_pair lib account_id i =
     (let date = now lib i - days (int i)
      in [[(''id'', PStr (''insight_'' @ show_nat i @ ''_1'')),
           (''account_id'', PStr account_id),
           (''campaign_id'', PStr ''camp_001''),
           (''adset_id'', PStr ''adset_001''),
           (''ad_id'', PStr ''ad_001''),
           (''date_start'', PDateTime date),
           (''date_stop'', PDateTime date),
           (''impressions'', PInt (1000 + int i * 50)),
           (''clicks'', PInt (50 + int i * 2)),
           (''spend'', PFloat (45.50 + real i * 1.5)),
           (''reach'', PInt (800 + int i * 30)),
           (''frequency'', PFloat (1.2 + real i * 0.01)),
           (''cpm'', PFloat 45.50),
           (''cpc'', PFloat 0.91),
           (''ctr'', PFloat 5.0),
           (''cpp'', PFloat 0.057),
           (''actions'', PList []),
           (''cost_per_action_type'', PList []),
           (''data'', PDict [])],
          [(''id'', PStr (''insight_'' @ show_nat i @ ''_2'')),
           (''account_id'', PStr account_id),
           (''campaign_id'', PStr ''camp_002''),
           (''adset_id'', PStr ''adset_002''),
           (''ad_id'', PStr ''ad_002''),
           (''date_start'', PDateTime date),
           (''date_stop'', PDateTime date),
           (''impressions'', PInt (800 + int i * 40)),
           (''clicks'', PFloat (40 + real i * 1.5)),
           (''spend'', PFloat (35.75 + real i * 1.2)),
           (''reach'', PInt (650 + int i * 25)),
           (''frequency'', PFloat (1.1 + real i * 0.008)),
           (''cpm'', PFloat 44.69),
           (''cpc'', PFloat 0.89),
           (''ctr'', PFloat 5.2),
           (''cpp'', PFloat 0.055),
           (''actions'', PList []),
           (''cost_per_action_type'', PList []),
           (''data'', PDict [])]])"

definition get_sample_insights :: "pylib \<Rightarrow> string \<Rightarrow> pydict list" where
  "get_sample_insights lib account_id = concat (map (sample_insight_pair lib account_id) [0..<30])"

subsection \<open>The four fetch operations\<close>

definition process_campaign :: "pylib \<Rightarrow> string \<Rightarrow> pydict \<Rightarrow> pydict" where
  "process_campaign lib account_id campaign =
     [(''id'', dict_get campaign ''id''),
      (''account_id'', PStr account_id),
      (''name'', dict_get campaign ''name''),
      (''status'', dict_get campaign ''status''),
      (''objective'', dict_get campaign ''objective''),
      (''created_time'', parse_datetime lib (dict_get campaign ''created_time'')),
      (''updated_time'', parse_datetime lib (dict_get campaign ''updated_time'')),
      (''start_time'', parse_datetime lib (dict_get campaign ''start_time'')),
      (''stop_time'', parse_datetime lib (dict_get campaign ''stop_time'')),
      (''budget_remaining'', parse_float lib (dict_get campaign ''budget_remaining'')),
      (''daily_budget'', parse_float lib (dict_get campaign ''daily_budget'')),
      (''lifetime_budget'', parse_float lib (dict_get campaign ''lifetime_budget'')),
      (''data'', PDict campaign)]"

definition fetch_campaigns :: "pylib \<Rightarrow> string \<Rightarrow> world \<Rightarrow> pydict list \<times> world" where
  "fetch_campaigns lib account_id w =
     (let endpoint = account_id @ ''/campaigns'';
          fields = [''id'', ''name'', ''status'', ''objective'', ''created_time'', ''updated_time'',
                    ''start_time'', ''stop_time'', ''budget_remaining'', ''daily_budget'',
                    ''lifetime_budget'', ''account_id''];
          params = [(''fields'', PStr (py_join '','' fields))]
      in case paginate_request endpoint (Some params) w of
           (Inr campaigns, w') \<Rightarrow> (map (process_campaign lib account_id) campaigns, w')
         | (Inl e, w') \<Rightarrow> (get_sample_campaigns lib account_id, w'))"

definition process_adset :: "pylib \<Rightarrow> string \<Rightarrow> pydict \<Rightarrow> pydict" where
  "process_adset lib account_id adset =
     [(''id'', dict_get adset ''id''),
      (''account_id'', PStr account_id),
      (''campaign_id'', dict_get adset ''campaign_id''),
      (''name'', dict_get adset ''name''),
      (''status'', dict_get adset ''status''),
      (''optimization_goal'', dict_get adset ''optimization_goal''),
      (''billing_event'', dict_get adset ''billing_event''),
      (''bid_amount'', parse_float lib (dict_get adset ''bid_amount'')),
      (''daily_budget'', parse_float lib (dict_get adset ''daily_budget'')),
      (''lifetime_budget'', parse_float lib (dict_get adset ''lifetime_budget'')),
      (''start_time'', parse_datetime lib (dict_get adset ''start_time'')),
      (''end_time'', parse_datetime lib (dict_get adset ''end_time'')),
      (''created_time'', parse_datetime lib (dict_get adset ''created_time'')),
      (''updated_time'', parse_datetime lib (dict_get adset ''updated_time'')),
      (''data'', PDict adset)]"

definition fetch_adsets :: "pylib \<Rightarrow> string \<Rightarrow> world \<Rightarrow> pydict list \<times> world" where
  "fetch_adsets lib account_id w =
     (let endpoint = account_id @ ''/adsets'';
          fields = [''id'', ''name'', ''status'', ''campaign_id'', ''optimization_goal'',
                    ''billing_event'', ''bid_amount'', ''daily_budget'', ''lifetime_budget'',
                    ''start_time'', ''end_time'', ''created_time'', ''updated_time'', ''account_id''];
          params = [(''fields'', PStr (py_join '','' fields))]
      in case paginate_request endpoint (Some params) w of
           (Inr adsets, w') \<Rightarrow> (map (process_adset lib account_id) adsets, w')
         | (Inl e, w') \<Rightarrow> (get_sample_adsets lib account_id, w'))"

definition process_ad :: "pylib \<Rightarrow> string \<Rightarrow> pydict \<Rightarrow> pydict" where
  "process_ad lib account_id ad =
     [(''id'', dict_get ad ''id''),
      (''account_id'', PStr account_id),
      (''campaign_id'', dict_get ad ''campaign_id''),
      (''adset_id'', dict_get ad ''adset_id''),
      (''name'', dict_get ad ''name''),
      (''status'', dict_get ad ''status''),
      (''created_time'', parse_datetime lib (dict_get ad ''created_time'')),
      (''updated_time'', parse_datetime lib (dict_get ad ''updated_time'')),
      (''data'', PDict ad)]"

definition fetch_ads :: "pylib \<Rightarrow> string \<Rightarrow> world \<Rightarrow> pydict list \<times> world" where
  "fetch_ads lib account_id w =
     (let endpoint = account_id @ ''/ads'';
          fields = [''id'', ''name'', ''status'', ''campaign_id'', ''adset_id'',
                    ''created_time'', ''updated_time'', ''account_id''];
          params = [(''fields'', PStr (py_join '','' fields))]
      in case paginate_request endpoint (Some params) w of
           (Inr ads, w') \<Rightarrow> (map (process_ad lib account_id) ads, w')
         | (Inl e, w') \<Rightarrow> (get_sample_ads lib account_id, w'))"

definition process_insight :: "pylib \<Rightarrow> string \<Rightarrow> nat \<Rightarrow> pydict \<Rightarrow> pydict" where
  \<comment> \<open>\<open>n\<close> is \<open>len(processed_insights)\<close> when the record is built\<close>
  "process_insight lib account_id n insight =
     [(''id'', PStr (py_str lib (dict_get_default insight ''campaign_id'' (PStr '''')) @ ''-'' @
                     py_str lib (dict_get_default insight ''date_start'' (PStr '''')) @ ''-'' @
                     show_nat n)),
      (''account_id'', PStr account_id),
      (''campaign_id'', dict_get insight ''campaign_id''),
      (''adset_id'', dict_get insight ''adset_id''),
      (''ad_id'', dict_get insight ''ad_id''),
      (''date_start'', parse_date lib (dict_get insight ''date_start'')),
      (''date_stop'', parse_date lib (dict_get insight ''date_stop'')),
      (''impressions'', parse_int lib (dict_get insight ''impressions'')),
      (''clicks'', parse_int lib (dict_get insight ''clicks'')),
      (''spend'', parse_float lib (dict_get insight ''spend'')),
      (''reach'', parse_int lib (dict_get insight ''reach'')),
      (''frequency'', parse_float lib (dict_get insight ''frequency'')),
      (''cpm'', parse_float lib (dict_get insight ''cpm'')),
      (''cpc'', parse_float lib (dict_get insight ''cpc'')),
      (''ctr'', parse_float lib (dict_get insight ''ctr'')),
      (''cpp'', parse_float lib (dict_get insight ''cpp'')),
      (''actions'', dict_get insight ''actions''),
      (''cost_per_action_type'', dict_get insight ''cost_per_action_type''),
      (''data'', PDict insight)]"

fun process_insights :: "pylib \<Rightarrow> string \<Rightarrow> pydict list \<Rightarrow> pydict list \<Rightarrow> pydict list" where
  \<comment> \<open>the loop \<open>for insight in insights\<close>, with the list \<open>processed_insights\<close> it appends to\<close>
  "process_insights lib account_id [] processed = processed"
| "process_insights lib account_id (insight # rest) processed =
     process_insights lib account_id rest
       (processed @ [process_insight lib account_id (length processed) insight])"

definition fetch_insights :: "pylib \<Rightarrow> string \<Rightarrow> string \<Rightarrow> world \<Rightarrow> pydict list \<times> world" where
  "fetch_insights lib account_id date_preset w =
     (let endpoint = account_id @ ''/insights'';
          fields = [''impressions'', ''clicks'', ''spend'', ''reach'', ''frequency'',
                    ''cpm'', ''cpc'', ''ctr'', ''cpp'', ''actions'', ''cost_per_action_type'',
                    ''campaign_id'', ''adset_id'', ''ad_id'', ''date_start'', ''date_stop''];
          params = [(''fields'', PStr (py_join '','' fields)),
                    (''date_preset'', PStr date_preset),
                    (''time_increment'', PInt 1)]
      in case paginate_request endpoint (Some params) w of
           (Inr insights, w') \<Rightarrow> (process_insights lib account_id insights [], w')
         | (Inl e, w') \<Rightarrow> (get_sample_insights lib account_id, w'))"

subsection \<open>Reading a run of the pagination\<close>

text \<open>
  The cursor that the loop takes from a response (none when the response has no \<open>next\<close>
  URL, when the URL has no \<open>after=\<close> or an empty one), the rows of a response, and the
  request that \<open>_make_request\<close> sends for an endpoint and parameters.
\<close>

definition cursor_of :: "page \<Rightarrow> string option" where
  "cursor_of p =
     (case paging p of
        Some (Paging (Some url)) \<Rightarrow>
          (case after_param url of
             Inr (Some a) \<Rightarrow> if a = [] then None else Some a
           | _ \<Rightarrow> None)
      | _ \<Rightarrow> None)"

definition page_data :: "page \<Rightarrow> pydict list" where
  "page_data p = (case data_field p of Some d \<Rightarrow> d | None \<Rightarrow> [])"

definition request_for :: "string \<Rightarrow> string \<Rightarrow> pydict option \<Rightarrow> string \<times> pydict" where
  "request_for token endpoint params =
     (base_url @ ''/'' @ endpoint,
      (let default_params = [(''access_token'', PStr token), (''limit'', PInt limit)]
       in case params of
            None \<Rightarrow> default_params
          | Some p \<Rightarrow> if p \<noteq> [] then dict_update default_params p else default_params))"

definition with_after :: "pydict option \<Rightarrow> string \<Rightarrow> pydict option" where
  "with_after params a =
     Some (AList.update ''after'' (PStr a) (case params of Some p \<Rightarrow> p | None \<Rightarrow> []))"


text \<open>
  Between a world \<open>w\<close> and a later world \<open>w'\<close>: the outcomes taken from the script, and
  whether a request failed, that is, an outcome taken was an error or a request was sent
  when the script was used up.
\<close>

definition outcomes_used :: "world \<Rightarrow> world \<Rightarrow> (error + page) list" where
  "outcomes_used w w' = take (length (script w) - length (script w')) (script w)"

definition request_failed :: "world \<Rightarrow> world \<Rightarrow> bool" where
  "request_failed w w' =
     (list_ex isl (outcomes_used w w') \<or>
      length (outcomes_used w w') < length (requests w') - length (requests w))"

subsection \<open>Numeric columns\<close>

text \<open>
  The columns that the schema of database.py declares \<open>Float\<close> or \<open>Integer\<close>, per table
  (the table of ads has none), and the values that are numbers.
\<close>

definition is_number :: "pyval \<Rightarrow> bool" where
  "is_number v = (case v of PInt i \<Rightarrow> True | PFloat x \<Rightarrow> True | _ \<Rightarrow> False)"

definition campaign_numeric_columns :: "string list" where
  "campaign_numeric_columns = [''budget_remaining'', ''daily_budget'', ''lifetime_budget'']"

definition adset_numeric_columns :: "string list" where
  "adset_numeric_columns = [''bid_amount'', ''daily_budget'', ''lifetime_budget'']"

definition insight_numeric_columns :: "string list" where
  "insight_numeric_columns =
     [''impressions'', ''clicks'', ''spend'', ''reach'', ''frequency'', ''cpm'', ''cpc'', ''ctr'',
      ''cpp'']"

section \<open>The persistence layer (database.py)\<close>

text \<open>
  A data frame has its columns and its rows, and a row gives a cell to every column. A cell
  is a Python value or one of the missing-value markers of pandas.
\<close>

datatype cell = Cell pyval | NaN | NaT

type_synonym frame_row = "(string \<times> cell) list"

record frame =
  frame_columns :: "string list"
  frame_rows :: "frame_row list"

text \<open>
  What pandas and the database do is taken from the environment: the cell that
  \<open>pd.DataFrame\<close> makes of one entry of a column, given all entries of that column (a record
  without the key has no entry); whether \<open>to_sql\<close> goes through for a table and a frame; the
  order in which \<open>ORDER BY col DESC\<close> gives the rows of a table; and the record that \<open>read_sql\<close>
  and \<open>to_dict('records')\<close> give back for a row of a table.
\<close>

record dbenv =
  frame_cell :: "pyval option list \<Rightarrow> pyval option \<Rightarrow> cell"
  to_sql_ok :: "string \<Rightarrow> frame \<Rightarrow> bool"
  order_by :: "string \<Rightarrow> frame \<Rightarrow> frame_row list"
  read_row :: "frame \<Rightarrow> frame_row \<Rightarrow> frame_row"

definition record_keys :: "pydict list \<Rightarrow> string list" where
  \<comment> \<open>the keys of the records, each once, in the order of first appearance\<close>
  "record_keys recs = rev (remdups (rev (concat (map (map fst) recs))))"

definition data_frame :: "dbenv \<Rightarrow> pydict list \<Rightarrow> frame" where
  \<comment> \<open>\<open>pd.DataFrame(records)\<close>: one row per record, one column per key\<close>
  "data_frame env recs =
     (let cols = record_keys recs
      in \<lparr>frame_columns = cols,
          frame_rows =
            map (\<lambda>r. map (\<lambda>c. (c, frame_cell env (map (\<lambda>r'. map_of r' c) recs) (map_of r c))) cols)
              recs\<rparr>)"

definition has_column :: "frame \<Rightarrow> string \<Rightarrow> bool" where
  \<comment> \<open>\<open>col in df.columns\<close>\<close>
  "has_column df col = (col \<in> set (frame_columns df))"

definition cell_dumps :: "pylib \<Rightarrow> cell \<Rightarrow> string option" where
  \<comment> \<open>\<open>json.dumps\<close> on a cell: \<open>NaN\<close> is a float and is written \<open>NaN\<close>, \<open>NaT\<close> is refused\<close>
  "cell_dumps lib x = (case x of Cell v \<Rightarrow> json_dumps lib v | NaN \<Rightarrow> Some ''NaN'' | NaT \<Rightarrow> None)"

definition dump_cell :: "pylib \<Rightarrow> cell \<Rightarrow> cell option" where
  \<comment> \<open>\<open>json.dumps(x) if x is not None else None\<close>; no result when \<open>json.dumps\<close> raises\<close>
  "dump_cell lib x =
     (if x \<noteq> Cell PNone then map_option (\<lambda>s. Cell (PStr s)) (cell_dumps lib x)
      else Some (Cell PNone))"

definition dump_row :: "pylib \<Rightarrow> string \<Rightarrow> frame_row \<Rightarrow> frame_row option" where
  "dump_row lib col r =
     (case map_of r col of
        None \<Rightarrow> Some r
      | Some x \<Rightarrow> map_option (\<lambda>y. AList.update col y r) (dump_cell lib x))"

definition dump_column :: "pylib \<Rightarrow> string \<Rightarrow> frame \<Rightarrow> frame option" where
  \<comment> \<open>\<open>if col in df.columns: df[col] = df[col].apply(...)\<close>\<close>
  "dump_column lib col df =
     (if has_column df col
      then map_option (\<lambda>rows. df\<lparr>frame_rows := rows\<rparr>) (those (map (dump_row lib col) (frame_rows df)))
      else Some df)"

fun dump_columns :: "pylib \<Rightarrow> string list \<Rightarrow> frame \<Rightarrow> frame option" where
  \<comment> \<open>the loop \<open>for col in json_columns\<close> of \<open>store_insights\<close>\<close>
  "dump_columns lib [] df = Some df"
| "dump_columns lib (col # cols) df =
     (case dump_column lib col df of
        None \<Rightarrow> None
      | Some df' \<Rightarrow> dump_columns lib cols df')"

record database =
  campaigns_table :: frame
  adsets_table :: frame
  ads_table :: frame
  insights_table :: frame

text \<open>
  A store call that raises, in \<open>json.dumps\<close> or in \<open>to_sql\<close>, leaves the table as it was;
  \<open>to_sql(..., if_exists='replace')\<close> that goes through leaves the frame as the table.
\<close>

definition store_campaigns ::
  "pylib \<Rightarrow> dbenv \<Rightarrow> pydict list \<Rightarrow> database \<Rightarrow> error + database" where
  "store_campaigns lib env campaigns_data db =
     (let df = data_frame env campaigns_data
      in case dump_column lib ''data'' df of
           None \<Rightarrow> Inl TypeError
         | Some df \<Rightarrow>
             if to_sql_ok env ''campaigns'' df then Inr (db\<lparr>campaigns_table := df\<rparr>)
             else Inl SQLAlchemyError)"

definition store_adsets ::
  "pylib \<Rightarrow> dbenv \<Rightarrow> pydict list \<Rightarrow> database \<Rightarrow> error + database" where
  "store_adsets lib env adsets_data db =
     (let df = data_frame env adsets_data
      in case dump_column lib ''data'' df of
           None \<Rightarrow> Inl TypeError
         | Some df \<Rightarrow>
             if to_sql_ok env ''adsets'' df then Inr (db\<lparr>adsets_table := df\<rparr>)
             else Inl SQLAlchemyError)"

definition store_ads ::
  "pylib \<Rightarrow> dbenv \<Rightarrow> pydict list \<Rightarrow> database \<Rightarrow> error + database" where
  "store_ads lib env ads_data db =
     (let df = data_frame env ads_data
      in case dump_column lib ''data'' df of
           None \<Rightarrow> Inl TypeError
         | Some df \<Rightarrow>
             if to_sql_ok env ''ads'' df then Inr (db\<lparr>ads_table := df\<rparr>)
             else Inl SQLAlchemyError)"

definition store_insights ::
  "pylib \<Rightarrow> dbenv \<Rightarrow> pydict list \<Rightarrow> database \<Rightarrow> error + database" where
  "store_insights lib env insights_data db =
     (let df = data_frame env insights_data;
          json_columns = [''actions'', ''cost_per_action_type'', ''data'']
      in case dump_columns lib json_columns df of
           None \<Rightarrow> Inl TypeError
         | Some df \<Rightarrow>
             if to_sql_ok env ''insights'' df then Inr (db\<lparr>insights_table := df\<rparr>)
             else Inl SQLAlchemyError)"

definition select_ordered :: "dbenv \<Rightarrow> frame \<Rightarrow> string \<Rightarrow> frame_row list" where
  \<comment> \<open>\<open>SELECT * FROM t ORDER BY col DESC\<close> read back as records; the statement fails on a table
      without the column, and every \<open>get_*\<close> then returns \<open>[]\<close>\<close>
  "select_ordered env df col =
     (if has_column df col then map (read_row env df) (order_by env col df) else [])"

definition get_campaigns :: "dbenv \<Rightarrow> database \<Rightarrow> frame_row list" where
  "get_campaigns env db = select_ordered env (campaigns_table db) ''created_time''"

definition get_adsets :: "dbenv \<Rightarrow> database \<Rightarrow> frame_row list" where
  "get_adsets env db = select_ordered env (adsets_table db) ''created_time''"

definition get_ads :: "dbenv \<Rightarrow> database \<Rightarrow> frame_row list" where
  "get_ads env db = select_ordered env (ads_table db) ''created_time''"

definition get_insights :: "dbenv \<Rightarrow> database \<Rightarrow> frame_row list" where
  "get_insights env db = select_ordered env (insights_table db) ''date_start''"

definition create_tables :: database where
  \<comment> \<open>the four tables of \<open>_define_tables\<close> as \<open>create_all\<close> makes them in a fresh database\<close>
  "create_tables =
     \<lparr>campaigns_table =
        \<lparr>frame_columns = [''id'', ''account_id'', ''name'', ''status'', ''objective'',
            ''created_time'', ''updated_time'', ''start_time'', ''stop_time'', ''budget_remaining'',
            ''daily_budget'', ''lifetime_budget'', ''data'', ''inserted_at''],
         frame_rows = []\<rparr>,
      adsets_table =
        \<lparr>frame_columns = [''id'', ''account_id'', ''campaign_id'', ''name'', ''status'',
            ''optimization_goal'', ''billing_event'', ''bid_amount'', ''daily_budget'',
            ''lifetime_budget'', ''start_time'', ''end_time'', ''created_time'', ''updated_time'',
            ''data'', ''inserted_at''],
         frame_rows = []\<rparr>,
      ads_table =
        \<lparr>frame_columns = [''id'', ''account_id'', ''campaign_id'', ''adset_id'', ''name'',
            ''status'', ''created_time'', ''updated_time'', ''data'', ''inserted_at''],
         frame_rows = []\<rparr>,
      insights_table =
        \<lparr>frame_columns = [''id'', ''account_id'', ''campaign_id'', ''adset_id'', ''ad_id'',
            ''date_start'', ''date_stop'', ''impressions'', ''clicks'', ''spend'', ''reach'',
            ''frequency'', ''cpm'', ''cpc'', ''ctr'', ''cpp'', ''actions'', ''cost_per_action_type'',
            ''data'', ''inserted_at''],
         frame_rows = []\<rparr>\<rparr>"

subsection \<open>Sequences of store calls\<close>

datatype table = Campaigns | Adsets | Ads | Insights

definition store ::
  "pylib \<Rightarrow> dbenv \<Rightarrow> table \<Rightarrow> pydict list \<Rightarrow> database \<Rightarrow> error + database" where
  "store lib env t recs db =
     (case t of
        Campaigns \<Rightarrow> store_campaigns lib env recs db
      | Adsets \<Rightarrow> store_adsets lib env recs db
      | Ads \<Rightarrow> store_ads lib env recs db
      | Insights \<Rightarrow> store_insights lib env recs db)"

definition retrieve :: "dbenv \<Rightarrow> table \<Rightarrow> database \<Rightarrow> frame_row list" where
  "retrieve env t db =
     (case t of
        Campaigns \<Rightarrow> get_campaigns env db
      | Adsets \<Rightarrow> get_adsets env db
      | Ads \<Rightarrow> get_ads env db
      | Insights \<Rightarrow> get_insights env db)"

definition run_stores ::
  "pylib \<Rightarrow> dbenv \<Rightarrow> (table \<times> pydict list) list \<Rightarrow> database \<Rightarrow> database" where
  \<comment> \<open>one store call after the other; a call that raises leaves the database as it was\<close>
  "run_stores lib env calls db =
     foldl (\<lambda>db (t, recs). case store lib env t recs db of Inr db' \<Rightarrow> db' | Inl e \<Rightarrow> db) db calls"

text \<open>
  Per table: its name, its JSON columns, the column its retrieval orders by and its frame in
  a database; the frame that a store call writes, if \<open>json.dumps\<close> does not raise, and whether
  the call goes through; and a record read as a row of cells.
\<close>

definition table_name :: "table \<Rightarrow> string" where
  "table_name t =
     (case t of Campaigns \<Rightarrow> ''campaigns'' | Adsets \<Rightarrow> ''adsets'' | Ads \<Rightarrow> ''ads''
      | Insights \<Rightarrow> ''insights'')"

definition json_columns :: "table \<Rightarrow> string list" where
  "json_columns t =
     (case t of Insights \<Rightarrow> [''actions'', ''cost_per_action_type'', ''data''] | _ \<Rightarrow> [''data''])"

definition order_column :: "table \<Rightarrow> string" where
  "order_column t = (case t of Insights \<Rightarrow> ''date_start'' | _ \<Rightarrow> ''created_time'')"

definition table_frame :: "table \<Rightarrow> database \<Rightarrow> frame" where
  "table_frame t db =
     (case t of
        Campaigns \<Rightarrow> campaigns_table db
      | Adsets \<Rightarrow> adsets_table db
      | Ads \<Rightarrow> ads_table db
      | Insights \<Rightarrow> insights_table db)"

definition written :: "pylib \<Rightarrow> dbenv \<Rightarrow> table \<Rightarrow> pydict list \<Rightarrow> frame option" where
  "written lib env t recs = dump_columns lib (json_columns t) (data_frame env recs)"

definition store_succeeds :: "pylib \<Rightarrow> dbenv \<Rightarrow> table \<Rightarrow> pydict list \<Rightarrow> bool" where
  "store_succeeds lib env t recs =
     (case written lib env t recs of
        None \<Rightarrow> False
      | Some df \<Rightarrow> to_sql_ok env (table_name t) df)"

definition as_cells :: "pydict \<Rightarrow> frame_row" where
  "as_cells r = map (\<lambda>(k, v). (k, Cell v)) r"

section \<open>The fallback narration (gemini\_query.py)\<close>

text \<open>
  A result set is a data frame: its number of rows and its columns, each with a name, the
  flag that its dtype is numeric, and its cells. Column names are taken to be distinct, so
  that \<open>data[col]\<close> is the column itself. The aggregates and \<open>nlargest\<close> of pandas and
  Python's \<open>format\<close> are taken from the library.
\<close>

record column =
  col_name :: string
  col_numeric :: bool
  col_cells :: "pyval list"





subsection \<open>The narration, column by column\<close>



section \<open>Inputs for the worked examples\<close>

definition example_page1 :: page where
  "example_page1 =
     \<lparr>data_field = Some [[(''id'', PStr ''1'')], [(''id'', PStr ''2'')]],
      paging = Some (Paging (Some ''https://graph.facebook.com/v18.0/act_1/campaigns?limit=500&after=QVFI''))\<rparr>"



definition example_world :: "(error + page) list \<Rightarrow> world" where
  "example_world outcomes = \<lparr>access_token = ''token'', script = outcomes, requests = []\<rparr>"

definition example_lib :: pylib where
  "example_lib =
     \<lparr>float_of = (\<lambda>v. if v = PStr ''12.5'' then Some 12.5 else None),
      int_of = (\<lambda>v. if v = PStr ''7'' then Some 7 else None),
      strptime = (\<lambda>s fmt. None),
      str_of = (\<lambda>v. ''?''),
      json_dumps = (\<lambda>v. if v = PDict [] then Some ''{}'' else None),
      now = (\<lambda>k. 0)\<rparr>"

definition example_insights :: "pydict list" where
  "example_insights =
     [[(''campaign_id'', PStr ''c1''), (''date_start'', PStr ''2024-01-01''), (''spend'', PStr ''12.5'')],
      [(''date_start'', PStr ''2024-01-02''), (''clicks'', PStr ''7'')],
      [(''impressions'', PNone)]]"

definition example_campaigns :: "pydict list" where
  "example_campaigns =
     [[(''id'', PStr ''c1''), (''created_time'', PDateTime 10), (''data'', PDict [])],
      [(''id'', PStr ''c2''), (''created_time'', PDateTime 20), (''data'', PNone)]]"

definition example_calls :: "(table \<times> pydict list) list" where
  "example_calls =
     [(Campaigns, [[(''id'', PStr ''old''), (''created_time'', PDateTime 5), (''data'', PNone)]]),
      (Campaigns, example_campaigns),
      (Ads, [[(''id'', PStr ''a1''), (''created_time'', PNone), (''data'', PDict [])]]),
      (Campaigns, [[(''id'', PStr ''bad''), (''created_time'', PDateTime 30), (''data'', PDateTime 0)]])]"

text \<open>
  A database that takes every frame, keeps the cells as they are (a missing entry becomes
  \<open>NaN\<close>) and orders a timestamp column as PostgreSQL does, \<open>NULL\<close> first when descending.
\<close>

definition order_rank :: "string \<Rightarrow> frame_row \<Rightarrow> int option" where
  "order_rank col r = (case map_of r col of Some (Cell (PDateTime t)) \<Rightarrow> Some (- t) | _ \<Rightarrow> None)"

definition example_env :: dbenv where
  "example_env =
     \<lparr>frame_cell = (\<lambda>column entry. case entry of None \<Rightarrow> NaN | Some v \<Rightarrow> Cell v),
      to_sql_ok = (\<lambda>name df. True),
      order_by = (\<lambda>col df. sort_key (order_rank col) (frame_rows df)),
      read_row = (\<lambda>df r. r)\<rparr>"



section \<open>Properties of the query engine\<close>

subsection \<open>Cleaning the model's answer\<close>

lemma re_sub_fence_id: "\<not> sublist lit s \<Longrightarrow> re_sub_fence lit s = s"
proof (induction s)
  case Nil then show ?case by simp
next
  case (Cons c cs)
  then have "lit \<noteq> []" by auto
  moreover from Cons.prems have "\<not> prefix lit (c # cs)" "\<not> sublist lit cs"
    by (auto simp: sublist_Cons_right)
  ultimately show ?case using Cons.IH by simp
qed

lemma rsf_match:
  "lit \<noteq> [] \<Longrightarrow> prefix lit (c # cs) \<Longrightarrow>
   re_sub_fence lit (c # cs) = re_sub_fence lit (drop_newline (drop (length lit) (c # cs)))"
  by simp

lemma rsf_skip:
  "lit \<noteq> [] \<Longrightarrow> \<not> prefix lit (c # cs) \<Longrightarrow>
   re_sub_fence lit (c # cs) = c # re_sub_fence lit cs"
  by simp

lemma fence_hd1:
  "lit = ''```'' \<Longrightarrow> prefix ''`'' (re_sub_fence lit u) \<Longrightarrow> prefix ''`'' u"
proof (induction lit u rule: re_sub_fence.induct)
  case (1 lit) then show ?case by simp
next
  case (2 lit c cs)
  have ne: "lit \<noteq> []" using "2.prems"(1) by simp
  show ?case
  proof (cases "prefix lit (c # cs)")
    case True
    then have "c = CHR ''`''" using "2.prems"(1) by simp
    then show ?thesis by simp
  next
    case False
    then have "re_sub_fence lit (c # cs) = c # re_sub_fence lit cs"
      using ne by (rule rsf_skip [rotated])
    with "2.prems"(2) have "c = CHR ''`''" by simp
    then show ?thesis by simp
  qed
qed

lemma fence_hd2:
  "lit = ''```'' \<Longrightarrow> prefix ''``'' (re_sub_fence lit u) \<Longrightarrow> prefix ''``'' u"
proof (induction lit u rule: re_sub_fence.induct)
  case (1 lit) then show ?case by simp
next
  case (2 lit c cs)
  have ne: "lit \<noteq> []" using "2.prems"(1) by simp
  show ?case
  proof (cases "prefix lit (c # cs)")
    case True
    then have "c = CHR ''`'' \<and> prefix ''``'' cs" using "2.prems"(1) by auto
    then obtain d ds where "cs = d # ds" "d = CHR ''`''" by (cases cs) auto
    with True "2.prems"(1) show ?thesis by simp
  next
    case False
    then have "re_sub_fence lit (c # cs) = c # re_sub_fence lit cs"
      using ne by (rule rsf_skip [rotated])
    with "2.prems"(2) have c: "c = CHR ''`''" and "prefix ''`'' (re_sub_fence lit cs)"
      by auto
    then have "prefix ''`'' cs" using fence_hd1 [of lit cs] "2.prems"(1) by blast
    with c show ?thesis by simp
  qed
qed

lemma no_fence_after_sub:
  "lit = ''```'' \<Longrightarrow> \<not> sublist lit (re_sub_fence lit u)"
proof (induction lit u rule: re_sub_fence.induct)
  case (1 lit) then show ?case by simp
next
  case (2 lit c cs)
  have ne: "lit \<noteq> []" using "2.prems"(1) by simp
  show ?case
  proof (cases "prefix lit (c # cs)")
    case True
    then have "re_sub_fence lit (c # cs) = re_sub_fence lit (drop_newline (drop (length lit) (c # cs)))"
      using ne by (rule rsf_match [rotated])
    moreover have "\<not> sublist lit (re_sub_fence lit (drop_newline (drop (length lit) (c # cs))))"
      using "2.IH"(1) [OF ne True "2.prems"] .
    ultimately show ?thesis by simp
  next
    case False
    then have eq: "re_sub_fence lit (c # cs) = c # re_sub_fence lit cs"
      using ne by (rule rsf_skip [rotated])
    have "\<not> prefix lit (c # re_sub_fence lit cs)"
    proof
      assume a: "prefix lit (c # re_sub_fence lit cs)"
      with "2.prems" have c: "c = CHR ''`''" and "prefix ''``'' (re_sub_fence lit cs)"
        by auto
      then have "prefix ''``'' cs" using fence_hd2 [of lit cs] "2.prems" by blast
      with c have "prefix lit (c # cs)" using "2.prems" by simp
      with False show False by simp
    qed
    moreover have "\<not> sublist lit (re_sub_fence lit cs)"
      using "2.IH"(2) [OF ne False "2.prems"] .
    ultimately show ?thesis unfolding eq by (simp only: sublist_Cons_right) simp
  qed
qed

lemma sublist_strip: "sublist (py_strip s) s"
proof -
  have "suffix (dropWhile py_isspace s) s" by (rule suffix_dropWhile)
  moreover have "suffix (dropWhile py_isspace (rev (dropWhile py_isspace s))) (rev (dropWhile py_isspace s))"
    by (rule suffix_dropWhile)
  then have "prefix (py_strip s) (dropWhile py_isspace s)"
    unfolding py_strip_def by (simp add: suffix_to_prefix)
  ultimately show ?thesis
    by (meson prefix_imp_sublist suffix_imp_sublist sublist_order.order.trans)
qed

lemma last_dropWhile_keep:
  "dropWhile P xs \<noteq> [] \<Longrightarrow> last (dropWhile P xs) = last xs"
  by (induction xs) (auto split: if_splits)

lemma strip_edges:
  assumes "py_strip s \<noteq> []"
  shows "\<not> py_isspace (hd (py_strip s))" and "\<not> py_isspace (last (py_strip s))"
proof -
  let ?d = "dropWhile py_isspace s"
  let ?e = "dropWhile py_isspace (rev ?d)"
  from assms have ne: "?e \<noteq> []" by (simp add: py_strip_def)
  then have h: "\<not> py_isspace (hd ?e)" by (rule hd_dropWhile)
  have "last (py_strip s) = hd ?e" using ne by (simp add: py_strip_def last_rev)
  with h show "\<not> py_isspace (last (py_strip s))" by simp
  from ne have dne: "?d \<noteq> []" by (auto simp del: dropWhile_eq_Nil_conv)
  then have hd: "\<not> py_isspace (hd ?d)" by (rule hd_dropWhile)
  have "hd (py_strip s) = last ?e" using ne by (simp add: py_strip_def hd_rev)
  also have "\<dots> = last (rev ?d)" using ne by (rule last_dropWhile_keep)
  also have "\<dots> = hd ?d" using dne by (simp add: last_rev)
  finally show "\<not> py_isspace (hd (py_strip s))" using hd by simp
qed

lemma strip_id:
  assumes "s \<noteq> []" "\<not> py_isspace (hd s)" "\<not> py_isspace (last s)"
  shows "py_strip s = s"
proof -
  from assms obtain c cs where s: "s = c # cs" by (cases s) auto
  with assms have d: "dropWhile py_isspace s = s" by simp
  from assms have "rev s \<noteq> []" "\<not> py_isspace (hd (rev s))" by (simp_all add: hd_rev)
  then have "dropWhile py_isspace (rev s) = rev s" by (cases "rev s") auto
  with d show ?thesis by (simp add: py_strip_def)
qed

lemma sublist_snoc_other:
  assumes "sublist p (t @ [c])" "p \<noteq> []" "last p \<noteq> c"
  shows "sublist p t"
proof -
  from assms(1) obtain xs ys where e: "t @ [c] = xs @ p @ ys" by (auto simp: sublist_def)
  show ?thesis
  proof (cases ys rule: rev_cases)
    case Nil
    with e assms(2) have "last (t @ [c]) = last p" by simp
    with assms(3) show ?thesis by simp
  next
    case (snoc ys' y)
    with e have "t = xs @ p @ ys'" by (metis append_assoc butlast_snoc)
    then show ?thesis by (auto simp: sublist_def)
  qed
qed

lemma semicolon_not_space: "\<not> py_isspace (CHR '';'')"
  by code_simp


lemma clean_sql_response_shape:
  fixes s :: string
  defines "t \<equiv> py_strip (re_sub_fence ''```'' (re_sub_fence ''```sql'' s))"
  defines "r \<equiv> clean_sql_response s"
  shows "\<not> sublist ''```'' r" and "\<not> sublist ''```sql'' r"
    and "endswith r '';''" and "\<not> py_isspace (hd r)" and "\<not> py_isspace (last r)"
    and "r = (if endswith t '';'' then t else t @ '';'')"
proof -
  have nf: "\<not> sublist ''```'' t"
    unfolding t_def using no_fence_after_sub [OF refl] sublist_strip
    by (meson sublist_order.order.trans)
  show r: "r = (if endswith t '';'' then t else t @ '';'')"
    by (simp add: r_def t_def clean_sql_response_def Let_def)
  show e: "endswith r '';''" unfolding r by (simp add: endswith_def)
  show nfr: "\<not> sublist ''```'' r"
  proof (cases "endswith t '';''")
    case True with nf r show ?thesis by simp
  next
    case False
    then have "r = t @ '';''" using r by simp
    then show ?thesis using nf sublist_snoc_other [of "''```''" t "CHR '';''"] by auto
  qed
  have "sublist ''```'' ''```sql''" by (simp add: sublist_def) (rule exI [of _ "[]"], simp)
  with nfr show "\<not> sublist ''```sql'' r"
    by (meson sublist_order.order.trans)
  from e have rne: "r \<noteq> []" and lr: "last r = CHR '';''"
    by (auto simp: endswith_def suffix_def)
  show "\<not> py_isspace (last r)" using lr semicolon_not_space by simp
  show "\<not> py_isspace (hd r)"
  proof (cases "t = []")
    case True
    then have "r = '';''" using r by (simp add: endswith_def)
    then show ?thesis using semicolon_not_space by simp
  next
    case False
    then have "hd r = hd t" using r by auto
    moreover have "\<not> py_isspace (hd t)"
      using False strip_edges(1) [of "re_sub_fence ''```'' (re_sub_fence ''```sql'' s)"]
      by (simp add: t_def)
    ultimately show ?thesis by simp
  qed
qed

text \<open>
  C5: for every response, the cleaned string holds no code-fence marker (neither
  \<open>```\<close> nor \<open>```sql\<close>), starts and ends with a character that is not whitespace, ends
  with a semicolon, and is the stripped, fence-free text itself when that already ends with
  \<open>;\<close> and that text followed by one \<open>;\<close> otherwise.
\<close>

theorem clean_sql_response_spec:
  "\<not> py_in ''```'' (clean_sql_response s) \<and>
   \<not> py_in ''```sql'' (clean_sql_response s) \<and>
   \<not> py_isspace (hd (clean_sql_response s)) \<and>
   \<not> py_isspace (last (clean_sql_response s)) \<and>
   endswith (clean_sql_response s) '';'' \<and>
   clean_sql_response s =
     (let t = py_strip (re_sub_fence ''```'' (re_sub_fence ''```sql'' s))
      in if endswith t '';'' then t else t @ '';'')"
  using clean_sql_response_shape [of s] by (simp add: py_in_def Let_def)

theorem clean_sql_response_spec_witness:
  "clean_sql_response (''```sql'' @ [CHR 0x0A] @ ''SELECT 1'' @ [CHR 0x0A] @ ''```'') = ''SELECT 1;'' \<and>
   \<not> py_in ''```'' (clean_sql_response (''```sql'' @ [CHR 0x0A] @ ''SELECT 1'' @ [CHR 0x0A] @ ''```'')) \<and>
   endswith (clean_sql_response (''```sql'' @ [CHR 0x0A] @ ''SELECT 1'' @ [CHR 0x0A] @ ''```'')) '';''"
proof -
  let ?s = "''```sql'' @ [CHR 0x0A] @ ''SELECT 1'' @ [CHR 0x0A] @ ''```''"
  have e: "clean_sql_response ?s = ''SELECT 1;''"
    by code_simp
  have m: "\<not> py_in ''```'' (clean_sql_response ?s) \<and> endswith (clean_sql_response ?s) '';''"
    using clean_sql_response_spec [of ?s] by blast
  from e m show ?thesis by blast
qed

text \<open>
  C9: cleaning is idempotent: the cleaned string has no fence left, is stripped already and
  ends with its semicolon, so a second pass changes nothing.
\<close>

theorem clean_sql_response_idempotent:
  "clean_sql_response (clean_sql_response s) = clean_sql_response s"
proof -
  let ?r = "clean_sql_response s"
  have a: "\<not> sublist ''```'' ?r" "\<not> sublist ''```sql'' ?r"
    by (rule clean_sql_response_shape)+
  have e: "endswith ?r '';''" by (rule clean_sql_response_shape(3))
  then have ne: "?r \<noteq> []" by (auto simp: endswith_def suffix_def)
  have s: "py_strip ?r = ?r"
    using ne clean_sql_response_shape(4,5) [of s] by (rule strip_id)
  have "clean_sql_response ?r =
      (if \<not> endswith (py_strip ?r) '';'' then py_strip ?r @ '';'' else py_strip ?r)"
    using a by (simp add: clean_sql_response_def [of ?r] re_sub_fence_id Let_def)
  with s e show ?thesis by simp
qed

theorem clean_sql_response_idempotent_witness:
  "clean_sql_response (clean_sql_response (''```'' @ ''  SELECT 1  '')) = ''SELECT 1;''"
proof -
  have "clean_sql_response (''```'' @ ''  SELECT 1  '') = ''SELECT 1;''"
    by code_simp
  then show ?thesis
    using clean_sql_response_idempotent [of "''```'' @ ''  SELECT 1  ''"] by simp
qed

subsection \<open>The statement guard\<close>

text \<open>
  C4: the guard refuses a statement (raises its \<open>ValueError\<close> and hands nothing to the
  database) exactly when the statement, stripped and uppercased, does not start with
  \<open>SELECT\<close>; every statement that passes is handed to the database as it was given, and the
  database's answer, data or error, is the result.
\<close>

theorem execute_sql_query_guard:
  "(execute_sql_query db q = (Inl (ValueError ''Only SELECT queries are allowed''), db)
      \<longleftrightarrow> \<not> startswith (py_upper (py_strip q)) ''SELECT'') \<and>
   (executed (snd (execute_sql_query db q)) = executed db
      \<longleftrightarrow> \<not> startswith (py_upper (py_strip q)) ''SELECT'') \<and>
   (startswith (py_upper (py_strip q)) ''SELECT'' \<longrightarrow>
      execute_sql_query db q = (answer db q, db\<lparr>executed := executed db @ [q]\<rparr>))"
proof -
  have "db\<lparr>executed := executed db @ [q]\<rparr> \<noteq> db"
  proof
    assume "db\<lparr>executed := executed db @ [q]\<rparr> = db"
    then have "executed (db\<lparr>executed := executed db @ [q]\<rparr>) = executed db" by simp
    then show False by simp
  qed
  then show ?thesis
    by (simp add: execute_sql_query_def execute_query_def)
qed

theorem execute_sql_query_guard_witness:
  "startswith (py_upper (py_strip ''  select 1;'')) ''SELECT'' \<and>
   execute_sql_query \<lparr>answer = (\<lambda>q. Inr (length q)), executed = []\<rparr> ''  select 1;''
     = (Inr 11, \<lparr>answer = (\<lambda>q. Inr (length q)), executed = [''  select 1;'']\<rparr>) \<and>
   \<not> startswith (py_upper (py_strip ''drop table ads'')) ''SELECT'' \<and>
   execute_sql_query \<lparr>answer = (\<lambda>q. Inr (length q)), executed = []\<rparr> ''drop table ads''
     = (Inl (ValueError ''Only SELECT queries are allowed''),
        \<lparr>answer = (\<lambda>q. Inr (length q)), executed = []\<rparr>)"
proof -
  have a: "startswith (py_upper (py_strip ''  select 1;'')) ''SELECT''" by code_simp
  have b: "\<not> startswith (py_upper (py_strip ''drop table ads'')) ''SELECT''" by code_simp
  show ?thesis
    using a b
      execute_sql_query_guard [of "\<lparr>answer = (\<lambda>q. Inr (length q)), executed = []\<rparr>" "''  select 1;''"]
      execute_sql_query_guard [of "\<lparr>answer = (\<lambda>q. Inr (length q)), executed = []\<rparr>" "''drop table ads''"]
    by simp
qed

subsection \<open>The classifier\<close>

text \<open>
  C6: a question is classified analytical (the classifier answers \<open>True\<close>) exactly when
  its lowercased text holds one of the keywords of the fixed list as a contiguous block, and
  lookup (\<open>False\<close>) otherwise; \<open>ROAS trend\<close> is analytical and \<open>top 5 campaigns\<close> is lookup.
\<close>

theorem is_analytical_query_spec:
  "(is_analytical_query q \<longleftrightarrow>
      (\<exists>k \<in> set analytical_keywords. \<exists>pre post. py_lower q = pre @ k @ post)) \<and>
   is_analytical_query ''ROAS trend'' \<and>
   \<not> is_analytical_query ''top 5 campaigns''"
proof -
  have "is_analytical_query ''ROAS trend''" by code_simp
  moreover have "\<not> is_analytical_query ''top 5 campaigns''" by code_simp
  ultimately show ?thesis
    by (auto simp: is_analytical_query_def py_in_def sublist_def list_ex_iff Let_def)
qed

theorem is_analytical_query_spec_witness:
  "is_analytical_query ''Compare CTR vs CPC'' \<and>
   ''vs'' \<in> set analytical_keywords \<and> py_lower ''Compare CTR vs CPC'' = ''compare ctr '' @ ''vs'' @ '' cpc''"
proof -
  have k: "''vs'' \<in> set analytical_keywords" by (simp add: analytical_keywords_def)
  have l: "py_lower ''Compare CTR vs CPC'' = ''compare ctr '' @ ''vs'' @ '' cpc''" by code_simp
  from k l have "\<exists>k \<in> set analytical_keywords. \<exists>pre post. py_lower ''Compare CTR vs CPC'' = pre @ k @ post"
    by blast
  with is_analytical_query_spec [of "''Compare CTR vs CPC''"] k l show ?thesis by blast
qed

section \<open>Properties of the API client\<close>

subsection \<open>Pagination\<close>

lemma py_split_from_nonempty: "py_split_from sep cur s \<noteq> []"
  by (induction sep cur s rule: py_split_from.induct) auto

lemma py_split_from_two:
  "sep \<noteq> [] \<Longrightarrow> sublist sep s \<Longrightarrow> 2 \<le> length (py_split_from sep cur s)"
proof (induction sep cur s rule: py_split_from.induct)
  case (1 sep cur)
  then show ?case by simp
next
  case (2 sep cur c cs)
  show ?case
  proof (cases "prefix sep (c # cs)")
    case True
    then have "py_split_from sep cur (c # cs) = cur # py_split_from sep [] (drop (length sep) (c # cs))"
      using "2.prems"(1) by simp
    moreover have "py_split_from sep [] (drop (length sep) (c # cs)) \<noteq> []"
      by (rule py_split_from_nonempty)
    ultimately show ?thesis
      by (cases "py_split_from sep [] (drop (length sep) (c # cs))") auto
  next
    case False
    with "2.prems"(2) have "sublist sep cs" by (simp add: sublist_Cons_right)
    with False "2.IH"(2) "2.prems"(1) show ?thesis by simp
  qed
qed

lemma after_param_total: "\<exists>r. after_param url = Inr r"
proof (cases "py_in ''after='' url")
  case False
  then show ?thesis by (simp add: after_param_def)
next
  case True
  then have "2 \<le> length (py_split url ''after='')"
    unfolding py_split_def py_in_def by (intro py_split_from_two) auto
  then have a: "list_get (py_split url ''after='') 1 = Inr (py_split url ''after='' ! 1)"
    by (simp add: list_get_def)
  have "py_split x ''&'' \<noteq> []" for x
    unfolding py_split_def by (rule py_split_from_nonempty)
  then have b: "list_get (py_split x ''&'') 0 = Inr (py_split x ''&'' ! 0)" for x
    by (simp add: list_get_def)
  show ?thesis using True a b by (simp add: after_param_def)
qed







lemma after_param_absent: "\<not> sublist ''after='' url \<Longrightarrow> after_param url = Inr None"
  by (simp add: after_param_def py_in_def)


lemma make_request_empty:
  "script w = [] \<Longrightarrow>
   make_request ep ps w =
     (Inl (RequestException ''no response''),
      w\<lparr>requests := requests w @ [request_for (access_token w) ep ps]\<rparr>)"
  by (simp add: make_request_def request_for_def Let_def)

lemma make_request_cons:
  "script w = out # rest \<Longrightarrow>
   make_request ep ps w =
     (out, w\<lparr>requests := requests w @ [request_for (access_token w) ep ps], script := rest\<rparr>)"
  by (simp add: make_request_def request_for_def Let_def)

lemma loop_stop:
  assumes "cursor_of r = None"
  shows "paginate_loop ep ps r acc w = (Inr acc, w)"
proof -
  show ?thesis
  proof (cases "paging r")
    case None
    then show ?thesis by (subst paginate_loop.simps) simp
  next
    case (Some pg)
    then obtain u where pg: "pg = Paging u" by (cases pg) auto
    show ?thesis
    proof (cases u)
      case None
      with Some pg show ?thesis by (subst paginate_loop.simps) simp
    next
      case (Some url)
      obtain x where x: "after_param url = Inr x" using after_param_total by blast
      with assms \<open>paging r = Some pg\<close> pg Some have "x = None \<or> x = Some []"
        by (cases x) (auto simp: cursor_of_def split: if_splits)
      with x \<open>paging r = Some pg\<close> pg Some show ?thesis
        by (subst paginate_loop.simps) auto
    qed
  qed
qed

lemma loop_step:
  assumes "cursor_of r = Some a"
  shows "paginate_loop ep ps r acc w =
     (case make_request ep (with_after ps a) w of
        (Inl e, w') \<Rightarrow> (Inl e, w')
      | (Inr r', w') \<Rightarrow>
          (case data_field r' of
             Some d \<Rightarrow> paginate_loop ep ps r' (acc @ d) w'
           | None \<Rightarrow> (Inr acc, w')))"
proof -
  from assms obtain url where "paging r = Some (Paging (Some url))"
    and "after_param url = Inr (Some a)" and "a \<noteq> []"
    by (auto simp: cursor_of_def split: option.splits paging.splits sum.splits if_splits)
  then show ?thesis
    by (subst paginate_loop.simps) (simp add: with_after_def Let_def)
qed











subsection \<open>Failed requests\<close>

lemma loop_trace:
  assumes "script w = s" and "paginate_loop ep ps r acc w = (res, w')"
  shows "\<exists>used sent. script w = used @ script w' \<and> requests w' = requests w @ sent \<and>
      (case res of
         Inr xs \<Rightarrow> length sent = length used \<and> (\<forall>e. Inl e \<notin> set used)
       | Inl e \<Rightarrow> (length sent = length used \<and> Inl e \<in> set used) \<or> length used < length sent)"
  using assms
proof (induction s arbitrary: r acc w)
  case Nil
  show ?case
  proof (cases "cursor_of r")
    case None
    with Nil.prems(2) have "res = Inr acc" "w' = w" by (simp_all add: loop_stop)
    then show ?thesis by simp
  next
    case (Some a)
    with Nil.prems have "res = Inl (RequestException ''no response'')"
      "w' = w\<lparr>requests := requests w @ [request_for (access_token w) ep (with_after ps a)]\<rparr>"
      by (simp_all add: loop_step make_request_empty)
    then show ?thesis by simp
  qed
next
  case (Cons out rest)
  show ?case
  proof (cases "cursor_of r")
    case None
    with Cons.prems(2) have "res = Inr acc" "w' = w" by (simp_all add: loop_stop)
    then show ?thesis by simp
  next
    case (Some a)
    let ?q = "request_for (access_token w) ep (with_after ps a)"
    let ?w1 = "w\<lparr>requests := requests w @ [?q], script := rest\<rparr>"
    have mr: "make_request ep (with_after ps a) w = (out, ?w1)"
      using Cons.prems(1) by (simp add: make_request_cons)
    show ?thesis
    proof (cases out)
      case (Inl e)
      with Cons.prems(2) Some mr have "res = Inl e" "w' = ?w1" by (simp_all add: loop_step)
      with Cons.prems(1) Inl show ?thesis
        by (intro exI [of _ "[out]"] exI [of _ "[?q]"]) simp
    next
      case (Inr p)
      show ?thesis
      proof (cases "data_field p")
        case None
        with Cons.prems(2) Some mr Inr have "res = Inr acc" "w' = ?w1" by (simp_all add: loop_step)
        with Cons.prems(1) Inr show ?thesis
          by (intro exI [of _ "[out]"] exI [of _ "[?q]"]) simp
      next
        case (Some d)
        with Cons.prems(2) \<open>cursor_of r = Some a\<close> mr Inr
        have "paginate_loop ep ps p (acc @ d) ?w1 = (res, w')" by (simp add: loop_step)
        moreover have "script ?w1 = rest" by simp
        ultimately obtain used sent where u: "script ?w1 = used @ script w'"
          "requests w' = requests ?w1 @ sent"
          "(case res of
             Inr xs \<Rightarrow> length sent = length used \<and> (\<forall>e. Inl e \<notin> set used)
           | Inl e \<Rightarrow> (length sent = length used \<and> Inl e \<in> set used) \<or> length used < length sent)"
          using Cons.IH [of ?w1 p "acc @ d"] by blast
        from u(1,2) Cons.prems(1) have "script w = (out # used) @ script w'"
          "requests w' = requests w @ (?q # sent)" by simp_all
        moreover from u(3) Inr have "(case res of
             Inr xs \<Rightarrow> length (?q # sent) = length (out # used) \<and> (\<forall>e. Inl e \<notin> set (out # used))
           | Inl e \<Rightarrow> (length (?q # sent) = length (out # used) \<and> Inl e \<in> set (out # used))
               \<or> length (out # used) < length (?q # sent))"
          by (auto split: sum.splits)
        ultimately show ?thesis by blast
      qed
    qed
  qed
qed

lemma paginate_request_trace:
  assumes "paginate_request ep ps w = (res, w')"
  shows "\<exists>used sent. script w = used @ script w' \<and> requests w' = requests w @ sent \<and>
      (case res of
         Inr xs \<Rightarrow> length sent = length used \<and> (\<forall>e. Inl e \<notin> set used)
       | Inl e \<Rightarrow> (length sent = length used \<and> Inl e \<in> set used) \<or> length used < length sent)"
proof (cases "script w")
  case Nil
  with assms have "res = Inl (RequestException ''no response'')"
    "w' = w\<lparr>requests := requests w @ [request_for (access_token w) ep ps]\<rparr>"
    by (simp_all add: paginate_request_def make_request_empty)
  with Nil show ?thesis by simp
next
  case (Cons out rest)
  let ?q = "request_for (access_token w) ep ps"
  let ?w1 = "w\<lparr>requests := requests w @ [?q], script := rest\<rparr>"
  have mr: "make_request ep ps w = (out, ?w1)"
    using Cons by (simp add: make_request_cons)
  show ?thesis
  proof (cases out)
    case (Inl e)
    with assms mr have "res = Inl e" "w' = ?w1" by (simp_all add: paginate_request_def)
    with Cons Inl show ?thesis
      by (intro exI [of _ "[out]"] exI [of _ "[?q]"]) simp
  next
    case (Inr p)
    with assms mr have "paginate_loop ep ps p (page_data p) ?w1 = (res, w')"
      by (simp add: paginate_request_def page_data_def)
    then obtain used sent where u: "script ?w1 = used @ script w'"
      "requests w' = requests ?w1 @ sent"
      "(case res of
         Inr xs \<Rightarrow> length sent = length used \<and> (\<forall>e. Inl e \<notin> set used)
       | Inl e \<Rightarrow> (length sent = length used \<and> Inl e \<in> set used) \<or> length used < length sent)"
      using loop_trace [OF refl, of ep ps p "page_data p" ?w1 res w'] by blast
    from u(1,2) Cons have "script w = (out # used) @ script w'"
      "requests w' = requests w @ (?q # sent)" by simp_all
    moreover from u(3) Inr have "(case res of
         Inr xs \<Rightarrow> length (?q # sent) = length (out # used) \<and> (\<forall>e. Inl e \<notin> set (out # used))
       | Inl e \<Rightarrow> (length (?q # sent) = length (out # used) \<and> Inl e \<in> set (out # used))
           \<or> length (out # used) < length (?q # sent))"
      by (auto split: sum.splits)
    ultimately show ?thesis by blast
  qed
qed

lemma request_failed_iff:
  assumes "paginate_request ep ps w = (res, w')"
  shows "request_failed w w' \<longleftrightarrow> (\<exists>e. res = Inl e)"
proof -
  from paginate_request_trace [OF assms] obtain used sent where
    u: "script w = used @ script w'" "requests w' = requests w @ sent"
    "(case res of
         Inr xs \<Rightarrow> length sent = length used \<and> (\<forall>e. Inl e \<notin> set used)
       | Inl e \<Rightarrow> (length sent = length used \<and> Inl e \<in> set used) \<or> length used < length sent)"
    by blast
  from u(1) have "outcomes_used w w' = used" by (simp add: outcomes_used_def)
  moreover from u(2) have "length (requests w') - length (requests w) = length sent" by simp
  ultimately have "request_failed w w' \<longleftrightarrow> ((\<exists>e. Inl e \<in> set used) \<or> length used < length sent)"
    by (auto simp: request_failed_def list_ex_iff isl_def)
  with u(3) show ?thesis by (cases res) auto
qed

lemma fetch_generic:
  assumes "(case paginate_request ep ps w of
              (Inr xs, w') \<Rightarrow> (f xs, w')
            | (Inl e, w') \<Rightarrow> (sample, w')) = out"
    and "request_failed w (snd out)"
  shows "fst out = sample"
proof -
  obtain res w' where p: "paginate_request ep ps w = (res, w')"
    by (cases "paginate_request ep ps w")
  with assms(1) have "snd out = w'" by (auto split: sum.splits)
  with assms(2) request_failed_iff [OF p] obtain e where "res = Inl e" by auto
  with p assms(1) show ?thesis by auto
qed

lemma length_sample_insights: "length (get_sample_insights lib a) = 60"
proof -
  have "length (concat (map (sample_insight_pair lib a) xs)) = 2 * length xs" for xs
    by (induction xs) (simp_all add: sample_insight_pair_def Let_def)
  then show ?thesis by (simp add: get_sample_insights_def)
qed

lemma sample_pair_account_id:
  "r \<in> set (sample_insight_pair lib a i) \<Longrightarrow> dict_get r ''account_id'' = PStr a"
  by (auto simp: sample_insight_pair_def Let_def dict_get_def)

lemma sample_account_ids:
  "\<forall>r \<in> set (get_sample_campaigns lib a @ get_sample_adsets lib a @ get_sample_ads lib a @
               get_sample_insights lib a). dict_get r ''account_id'' = PStr a"
proof -
  have "\<forall>r \<in> set (get_sample_campaigns lib a). dict_get r ''account_id'' = PStr a"
    by (simp add: get_sample_campaigns_def dict_get_def)
  moreover have "\<forall>r \<in> set (get_sample_adsets lib a). dict_get r ''account_id'' = PStr a"
    by (simp add: get_sample_adsets_def dict_get_def)
  moreover have "\<forall>r \<in> set (get_sample_ads lib a). dict_get r ''account_id'' = PStr a"
    by (simp add: get_sample_ads_def dict_get_def)
  moreover have "\<forall>r \<in> set (get_sample_insights lib a). dict_get r ''account_id'' = PStr a"
    unfolding get_sample_insights_def set_concat set_map using sample_pair_account_id by blast
  ultimately show ?thesis unfolding set_append by blast
qed

text \<open>
  C3: whenever a request made during a fetch fails, be it the first page or a later one,
  the fetch returns the canned sample records of its entity type, whole (two campaigns, two
  ad sets, two ads, sixty insights), each with the given account id, and nothing of the
  pages fetched before the failure. The fetch operations return a list in every case: the
  \<open>except\<close> clause catches every exception.
\<close>

theorem fetch_falls_back_to_sample:
  "(request_failed w (snd (fetch_campaigns lib a w)) \<longrightarrow>
      fst (fetch_campaigns lib a w) = get_sample_campaigns lib a) \<and>
   (request_failed w (snd (fetch_adsets lib a w)) \<longrightarrow>
      fst (fetch_adsets lib a w) = get_sample_adsets lib a) \<and>
   (request_failed w (snd (fetch_ads lib a w)) \<longrightarrow>
      fst (fetch_ads lib a w) = get_sample_ads lib a) \<and>
   (request_failed w (snd (fetch_insights lib a preset w)) \<longrightarrow>
      fst (fetch_insights lib a preset w) = get_sample_insights lib a) \<and>
   length (get_sample_campaigns lib a) = 2 \<and> length (get_sample_adsets lib a) = 2 \<and>
   length (get_sample_ads lib a) = 2 \<and> length (get_sample_insights lib a) = 60 \<and>
   (\<forall>r \<in> set (get_sample_campaigns lib a @ get_sample_adsets lib a @ get_sample_ads lib a @
                get_sample_insights lib a). dict_get r ''account_id'' = PStr a)"
proof -
  have "request_failed w (snd (fetch_campaigns lib a w)) \<longrightarrow>
      fst (fetch_campaigns lib a w) = get_sample_campaigns lib a"
    unfolding fetch_campaigns_def Let_def by (intro impI fetch_generic [OF refl])
  moreover have "request_failed w (snd (fetch_adsets lib a w)) \<longrightarrow>
      fst (fetch_adsets lib a w) = get_sample_adsets lib a"
    unfolding fetch_adsets_def Let_def by (intro impI fetch_generic [OF refl])
  moreover have "request_failed w (snd (fetch_ads lib a w)) \<longrightarrow>
      fst (fetch_ads lib a w) = get_sample_ads lib a"
    unfolding fetch_ads_def Let_def by (intro impI fetch_generic [OF refl])
  moreover have "request_failed w (snd (fetch_insights lib a preset w)) \<longrightarrow>
      fst (fetch_insights lib a preset w) = get_sample_insights lib a"
    unfolding fetch_insights_def Let_def by (intro impI fetch_generic [OF refl])
  moreover have "length (get_sample_campaigns lib a) = 2" "length (get_sample_adsets lib a) = 2"
    "length (get_sample_ads lib a) = 2"
    by (simp_all add: get_sample_campaigns_def get_sample_adsets_def get_sample_ads_def)
  ultimately show ?thesis
    using length_sample_insights [of lib a] sample_account_ids [of lib a] by blast
qed

theorem fetch_falls_back_to_sample_witness:
  "request_failed (example_world [Inr example_page1, Inl (RequestException ''500'')])
     (snd (fetch_campaigns example_lib ''act_1''
            (example_world [Inr example_page1, Inl (RequestException ''500'')]))) \<and>
   fst (fetch_campaigns example_lib ''act_1''
         (example_world [Inr example_page1, Inl (RequestException ''500'')]))
     = get_sample_campaigns example_lib ''act_1''"
proof -
  let ?w = "example_world [Inr example_page1, Inl (RequestException ''500'')]"
  have h: "request_failed ?w (snd (fetch_campaigns example_lib ''act_1'' ?w))"
    by code_simp
  with fetch_falls_back_to_sample [of ?w example_lib "''act_1''"] show ?thesis by blast
qed

subsection \<open>Processed records\<close>

lemma process_insights_acc:
  "process_insights lib a xs acc =
     acc @ map (\<lambda>(i, x). process_insight lib a i x) (enumerate (length acc) xs)"
  by (induction xs arbitrary: acc) simp_all

lemma process_insights_nth:
  assumes "n < length xs"
  shows "process_insights lib a xs [] ! n = process_insight lib a n (xs ! n)"
  using assms by (simp add: process_insights_acc nth_enumerate_eq)

lemma process_insights_length: "length (process_insights lib a xs []) = length xs"
  by (simp add: process_insights_acc)

text \<open>
  C8: the processed insight at position \<open>n\<close> (counted from 0) has the id made of its
  campaign id, its \<open>date_start\<close> and the decimal numeral of \<open>n\<close>, joined by hyphens. A key
  that the raw record lacks gives the empty string, a string value gives itself, and any
  other value is rendered as an f-string renders it.
\<close>

theorem insight_synthetic_id:
  assumes "n < length insights"
  shows "length (process_insights lib a insights []) = length insights \<and>
     dict_get (process_insights lib a insights [] ! n) ''id'' =
       PStr ((case map_of (insights ! n) ''campaign_id'' of
                None \<Rightarrow> '''' | Some (PStr s) \<Rightarrow> s | Some v \<Rightarrow> py_str lib v)
             @ ''-'' @
             (case map_of (insights ! n) ''date_start'' of
                None \<Rightarrow> '''' | Some (PStr s) \<Rightarrow> s | Some v \<Rightarrow> py_str lib v)
             @ ''-'' @ show_nat n)"
proof -
  have "py_str lib (dict_get_default d k (PStr '''')) =
      (case map_of d k of None \<Rightarrow> '''' | Some (PStr s) \<Rightarrow> s | Some v \<Rightarrow> py_str lib v)" for d k
    by (simp add: dict_get_default_def py_str_def split: option.splits pyval.splits)
  then show ?thesis
    using assms
    by (simp add: process_insights_length process_insights_nth process_insight_def dict_get_def)
qed

theorem insight_synthetic_id_witness:
  "(1::nat) < length example_insights \<and>
   dict_get (process_insights example_lib ''act_1'' example_insights [] ! 1) ''id''
     = PStr ''-2024-01-02-1''"
proof -
  have h: "(1::nat) < length example_insights" by (simp add: example_insights_def)
  have "example_insights ! 1 = [(''date_start'', PStr ''2024-01-02''), (''clicks'', PStr ''7'')]"
    by (simp add: example_insights_def)
  moreover have "show_nat 1 = ''1''" by code_simp
  ultimately show ?thesis
    using h insight_synthetic_id [OF h, of example_lib "''act_1''"] by simp
qed

lemma is_number_parse: "is_number (parse_float lib v)" "is_number (parse_int lib v)"
  by (simp_all add: is_number_def parse_float_def parse_int_def split: option.splits)

lemma parse_missing:
  "parse_float lib PNone = PFloat 0" "parse_int lib PNone = PInt 0"
  by (simp_all add: parse_float_def parse_int_def)

lemma dict_get_missing: "map_of d k = None \<Longrightarrow> dict_get d k = PNone"
  by (simp add: dict_get_def)

lemma process_insight_fields:
  "dict_get (process_insight lib a n raw) ''impressions'' = parse_int lib (dict_get raw ''impressions'')"
  "dict_get (process_insight lib a n raw) ''clicks'' = parse_int lib (dict_get raw ''clicks'')"
  "dict_get (process_insight lib a n raw) ''spend'' = parse_float lib (dict_get raw ''spend'')"
  "dict_get (process_insight lib a n raw) ''reach'' = parse_int lib (dict_get raw ''reach'')"
  "dict_get (process_insight lib a n raw) ''frequency'' = parse_float lib (dict_get raw ''frequency'')"
  "dict_get (process_insight lib a n raw) ''cpm'' = parse_float lib (dict_get raw ''cpm'')"
  "dict_get (process_insight lib a n raw) ''cpc'' = parse_float lib (dict_get raw ''cpc'')"
  "dict_get (process_insight lib a n raw) ''ctr'' = parse_float lib (dict_get raw ''ctr'')"
  "dict_get (process_insight lib a n raw) ''cpp'' = parse_float lib (dict_get raw ''cpp'')"
  by (simp_all add: process_insight_def dict_get_def [of "_ # _"])

lemma process_campaign_fields:
  "dict_get (process_campaign lib a raw) ''budget_remaining'' = parse_float lib (dict_get raw ''budget_remaining'')"
  "dict_get (process_campaign lib a raw) ''daily_budget'' = parse_float lib (dict_get raw ''daily_budget'')"
  "dict_get (process_campaign lib a raw) ''lifetime_budget'' = parse_float lib (dict_get raw ''lifetime_budget'')"
  by (simp_all add: process_campaign_def dict_get_def [of "_ # _"])

lemma process_adset_fields:
  "dict_get (process_adset lib a raw) ''bid_amount'' = parse_float lib (dict_get raw ''bid_amount'')"
  "dict_get (process_adset lib a raw) ''daily_budget'' = parse_float lib (dict_get raw ''daily_budget'')"
  "dict_get (process_adset lib a raw) ''lifetime_budget'' = parse_float lib (dict_get raw ''lifetime_budget'')"
  by (simp_all add: process_adset_def dict_get_def [of "_ # _"])

lemma process_insight_numeric:
  "\<forall>k \<in> set insight_numeric_columns. is_number (dict_get (process_insight lib a n raw) k)"
  "\<forall>k \<in> set insight_numeric_columns. map_of raw k = None \<longrightarrow>
     dict_get (process_insight lib a n raw) k \<in> {PInt 0, PFloat 0}"
  unfolding insight_numeric_columns_def list_all_iff [symmetric] list.pred_inject
  by (simp_all add: process_insight_fields is_number_parse dict_get_missing parse_missing)

lemma process_campaign_numeric:
  "\<forall>k \<in> set campaign_numeric_columns.
      is_number (dict_get (process_campaign lib a raw) k) \<and>
      (map_of raw k = None \<longrightarrow> dict_get (process_campaign lib a raw) k = PFloat 0)"
  unfolding campaign_numeric_columns_def list_all_iff [symmetric] list.pred_inject
  by (simp add: process_campaign_fields is_number_parse dict_get_missing parse_missing)

lemma process_adset_numeric:
  "\<forall>k \<in> set adset_numeric_columns.
      is_number (dict_get (process_adset lib a raw) k) \<and>
      (map_of raw k = None \<longrightarrow> dict_get (process_adset lib a raw) k = PFloat 0)"
  unfolding adset_numeric_columns_def list_all_iff [symmetric] list.pred_inject
  by (simp add: process_adset_fields is_number_parse dict_get_missing parse_missing)

text \<open>
  C10: the two number parsers always return a number: zero for \<open>None\<close>, for the empty
  string and for a value that \<open>float\<close> or \<open>int\<close> rejects, and the converted number otherwise.
  Hence every numeric column of a processed campaign, ad set or insight holds a number, and
  holds zero where the raw record lacks the key. (A processed ad has no numeric column.)
\<close>

theorem numeric_fields_defined:
  "(v = PNone \<or> v = PStr '''' \<or> float_of lib v = None \<longrightarrow> parse_float lib v = PFloat 0) \<and>
   (v \<noteq> PNone \<and> v \<noteq> PStr '''' \<longrightarrow> (\<forall>x. float_of lib v = Some x \<longrightarrow> parse_float lib v = PFloat x)) \<and>
   (v = PNone \<or> v = PStr '''' \<or> int_of lib v = None \<longrightarrow> parse_int lib v = PInt 0) \<and>
   (v \<noteq> PNone \<and> v \<noteq> PStr '''' \<longrightarrow> (\<forall>i. int_of lib v = Some i \<longrightarrow> parse_int lib v = PInt i)) \<and>
   (\<forall>k \<in> set campaign_numeric_columns.
      is_number (dict_get (process_campaign lib a raw) k) \<and>
      (map_of raw k = None \<longrightarrow> dict_get (process_campaign lib a raw) k = PFloat 0)) \<and>
   (\<forall>k \<in> set adset_numeric_columns.
      is_number (dict_get (process_adset lib a raw) k) \<and>
      (map_of raw k = None \<longrightarrow> dict_get (process_adset lib a raw) k = PFloat 0)) \<and>
   (\<forall>r \<in> set (process_insights lib a raws []). \<forall>k \<in> set insight_numeric_columns.
      is_number (dict_get r k)) \<and>
   (\<forall>n < length raws. \<forall>k \<in> set insight_numeric_columns. map_of (raws ! n) k = None \<longrightarrow>
      dict_get (process_insights lib a raws [] ! n) k \<in> {PInt 0, PFloat 0})"
proof -
  have p: "(v = PNone \<or> v = PStr '''' \<or> float_of lib v = None \<longrightarrow> parse_float lib v = PFloat 0) \<and>
   (v \<noteq> PNone \<and> v \<noteq> PStr '''' \<longrightarrow> (\<forall>x. float_of lib v = Some x \<longrightarrow> parse_float lib v = PFloat x)) \<and>
   (v = PNone \<or> v = PStr '''' \<or> int_of lib v = None \<longrightarrow> parse_int lib v = PInt 0) \<and>
   (v \<noteq> PNone \<and> v \<noteq> PStr '''' \<longrightarrow> (\<forall>i. int_of lib v = Some i \<longrightarrow> parse_int lib v = PInt i))"
    by (auto simp: parse_float_def parse_int_def)
  note c = process_campaign_numeric [of lib a raw]
  note s = process_adset_numeric [of lib a raw]
  have i1: "\<forall>r \<in> set (process_insights lib a raws []). \<forall>k \<in> set insight_numeric_columns.
      is_number (dict_get r k)"
  proof (intro ballI)
    fix r k assume "r \<in> set (process_insights lib a raws [])" and k: "k \<in> set insight_numeric_columns"
    then obtain n where "n < length raws" "r = process_insights lib a raws [] ! n"
      by (auto simp: in_set_conv_nth process_insights_length)
    then have "r = process_insight lib a n (raws ! n)" by (simp add: process_insights_nth)
    with k show "is_number (dict_get r k)" using process_insight_numeric(1) by blast
  qed
  have i2: "\<forall>n < length raws. \<forall>k \<in> set insight_numeric_columns. map_of (raws ! n) k = None \<longrightarrow>
      dict_get (process_insights lib a raws [] ! n) k \<in> {PInt 0, PFloat 0}"
  proof (intro allI impI)
    fix n assume "n < length raws"
    then have "process_insights lib a raws [] ! n = process_insight lib a n (raws ! n)"
      by (rule process_insights_nth)
    then show "\<forall>k \<in> set insight_numeric_columns. map_of (raws ! n) k = None \<longrightarrow>
      dict_get (process_insights lib a raws [] ! n) k \<in> {PInt 0, PFloat 0}"
      using process_insight_numeric(2) [of "raws ! n" lib a n] by simp
  qed
  from p c s i1 i2 show ?thesis by blast
qed

theorem numeric_fields_defined_witness:
  "parse_float example_lib (PStr ''12.5'') = PFloat 12.5 \<and>
   parse_float example_lib (PStr ''abc'') = PFloat 0 \<and>
   parse_int example_lib (PStr ''7'') = PInt 7 \<and>
   ''daily_budget'' \<in> set campaign_numeric_columns \<and>
   dict_get (process_campaign example_lib ''act_1'' [(''id'', PStr ''1'')]) ''daily_budget'' = PFloat 0 \<and>
   ''spend'' \<in> set insight_numeric_columns \<and>
   is_number (dict_get (process_insights example_lib ''act_1'' example_insights [] ! 0) ''spend'')"
proof -
  have f: "float_of example_lib (PStr ''12.5'') = Some 12.5" "float_of example_lib (PStr ''abc'') = None"
    "int_of example_lib (PStr ''7'') = Some 7"
    by (simp_all add: example_lib_def)
  have k: "''daily_budget'' \<in> set campaign_numeric_columns" "''spend'' \<in> set insight_numeric_columns"
    by (simp_all add: campaign_numeric_columns_def insight_numeric_columns_def)
  have m: "map_of [(''id'', PStr ''1'')] ''daily_budget'' = None" by simp
  have n: "process_insights example_lib ''act_1'' example_insights [] ! 0
      \<in> set (process_insights example_lib ''act_1'' example_insights [])"
    by (simp add: process_insights_length example_insights_def)
  show ?thesis
    using f k m n
      numeric_fields_defined [of "PStr ''12.5''" example_lib "''act_1''" "[(''id'', PStr ''1'')]" example_insights]
      numeric_fields_defined [of "PStr ''abc''" example_lib "''act_1''" "[(''id'', PStr ''1'')]" example_insights]
      numeric_fields_defined [of "PStr ''7''" example_lib "''act_1''" "[(''id'', PStr ''1'')]" example_insights]
    by auto
qed

section \<open>Properties of the persistence layer\<close>

lemma those_map_Some:
  "those (map f xs) = Some ys \<Longrightarrow>
   length ys = length xs \<and> (\<forall>i < length xs. f (xs ! i) = Some (ys ! i))"
proof (induction xs arbitrary: ys)
  case Nil then show ?case by simp
next
  case (Cons x xs)
  then obtain y ys' where y: "f x = Some y" "those (map f xs) = Some ys'" "ys = y # ys'"
    by (auto split: option.splits)
  with Cons.IH [of ys'] show ?case by (auto simp: nth_Cons')
qed

lemma map_of_tabulate:
  "map_of (map (\<lambda>c. (c, f c)) cols) k = (if k \<in> set cols then Some (f k) else None)"
  by (induction cols) auto

lemma set_record_keys: "set (record_keys recs) = (\<Union>r \<in> set recs. fst ` set r)"
  by (auto simp: record_keys_def)

lemma data_frame_props:
  "frame_columns (data_frame env recs) = record_keys recs"
  "length (frame_rows (data_frame env recs)) = length recs"
  "i < length recs \<Longrightarrow> map_of (frame_rows (data_frame env recs) ! i) k =
     (if k \<in> set (record_keys recs)
      then Some (frame_cell env (map (\<lambda>r. map_of r k) recs) (map_of (recs ! i) k))
      else None)"
  by (simp_all add: data_frame_def Let_def map_of_tabulate)

lemma dump_row_props:
  assumes "dump_row lib c r = Some r'"
  shows "map_of r' k =
      (if k = c then (case map_of r c of None \<Rightarrow> None | Some x \<Rightarrow> dump_cell lib x)
       else map_of r k)"
  using assms by (cases "map_of r c") (auto simp: dump_row_def update_conv')

lemma dump_row_keys:
  assumes "dump_row lib c r = Some r'"
  shows "map fst r' = map fst r"
proof (cases "map_of r c")
  case None with assms show ?thesis by (simp add: dump_row_def)
next
  case (Some x)
  then have k: "c \<in> set (map fst r)"
    using map_of_eq_None_iff [of r c] by simp
  from assms Some obtain z where "r' = AList.update c z r"
    by (auto simp: dump_row_def)
  with k show ?thesis by (simp add: update_keys)
qed

lemma dump_column_keys:
  assumes "dump_column lib c df = Some df'" and "i < length (frame_rows df)"
  shows "map fst (frame_rows df' ! i) = map fst (frame_rows df ! i)"
proof (cases "has_column df c")
  case True
  with assms obtain rows where r: "those (map (dump_row lib c) (frame_rows df)) = Some rows"
    "df' = df\<lparr>frame_rows := rows\<rparr>"
    by (auto simp: dump_column_def)
  with assms(2) have "dump_row lib c (frame_rows df ! i) = Some (frame_rows df' ! i)"
    using those_map_Some [of "dump_row lib c" "frame_rows df" rows] by simp
  then show ?thesis by (rule dump_row_keys)
next
  case False
  with assms show ?thesis by (simp add: dump_column_def)
qed

lemma dump_column_props:
  assumes "dump_column lib c df = Some df'"
  shows "frame_columns df' = frame_columns df"
    and "length (frame_rows df') = length (frame_rows df)"
    and "i < length (frame_rows df) \<Longrightarrow> map_of (frame_rows df' ! i) k =
      (if k = c \<and> c \<in> set (frame_columns df)
       then (case map_of (frame_rows df ! i) c of None \<Rightarrow> None | Some x \<Rightarrow> dump_cell lib x)
       else map_of (frame_rows df ! i) k)"
proof -
  show "frame_columns df' = frame_columns df"
    using assms by (auto simp: dump_column_def split: if_splits)
  show "length (frame_rows df') = length (frame_rows df)"
    using assms those_map_Some [of "dump_row lib c" "frame_rows df"]
    by (auto simp: dump_column_def split: if_splits)
  assume i: "i < length (frame_rows df)"
  show "map_of (frame_rows df' ! i) k =
      (if k = c \<and> c \<in> set (frame_columns df)
       then (case map_of (frame_rows df ! i) c of None \<Rightarrow> None | Some x \<Rightarrow> dump_cell lib x)
       else map_of (frame_rows df ! i) k)"
  proof (cases "has_column df c")
    case True
    with assms obtain rows where r: "those (map (dump_row lib c) (frame_rows df)) = Some rows"
      "df' = df\<lparr>frame_rows := rows\<rparr>"
      by (auto simp: dump_column_def)
    with i have "dump_row lib c (frame_rows df ! i) = Some (frame_rows df' ! i)"
      using those_map_Some [of "dump_row lib c" "frame_rows df" rows] by simp
    from dump_row_props [OF this, of k] True show ?thesis by (simp add: has_column_def)
  next
    case False
    with assms show ?thesis by (simp add: dump_column_def has_column_def)
  qed
qed

lemma dump_columns_props:
  assumes "dump_columns lib cols df = Some df'" and "distinct cols"
  shows "frame_columns df' = frame_columns df \<and>
     length (frame_rows df') = length (frame_rows df) \<and>
     (\<forall>i < length (frame_rows df). \<forall>k. map_of (frame_rows df' ! i) k =
        (if k \<in> set cols \<and> k \<in> set (frame_columns df)
         then (case map_of (frame_rows df ! i) k of None \<Rightarrow> None | Some x \<Rightarrow> dump_cell lib x)
         else map_of (frame_rows df ! i) k))"
  using assms
proof (induction cols arbitrary: df)
  case Nil then show ?case by simp
next
  case (Cons c cols)
  then obtain d1 where d1: "dump_column lib c df = Some d1" "dump_columns lib cols d1 = Some df'"
    by (auto split: option.splits)
  from Cons.prems(2) have dist: "distinct cols" "c \<notin> set cols" by simp_all
  note p = dump_column_props [OF d1(1)]
  from Cons.IH [OF d1(2) dist(1)] have ih: "frame_columns df' = frame_columns d1"
    "length (frame_rows df') = length (frame_rows d1)"
    "\<And>i k. i < length (frame_rows d1) \<Longrightarrow> map_of (frame_rows df' ! i) k =
        (if k \<in> set cols \<and> k \<in> set (frame_columns d1)
         then (case map_of (frame_rows d1 ! i) k of None \<Rightarrow> None | Some x \<Rightarrow> dump_cell lib x)
         else map_of (frame_rows d1 ! i) k)"
    by auto
  show ?case
  proof (intro conjI allI impI)
    show "frame_columns df' = frame_columns df" using ih(1) p(1) by simp
    show "length (frame_rows df') = length (frame_rows df)" using ih(2) p(2) by simp
  next
    fix i k assume i: "i < length (frame_rows df)"
    then have "i < length (frame_rows d1)" using p(2) by simp
    from ih(3) [OF this, of k] p(3) [OF i] p(1) dist(2)
    show "map_of (frame_rows df' ! i) k =
        (if k \<in> set (c # cols) \<and> k \<in> set (frame_columns df)
         then (case map_of (frame_rows df ! i) k of None \<Rightarrow> None | Some x \<Rightarrow> dump_cell lib x)
         else map_of (frame_rows df ! i) k)"
      by auto
  qed
qed

lemma dump_columns_keys:
  assumes "dump_columns lib cols df = Some df'" and "i < length (frame_rows df)"
  shows "map fst (frame_rows df' ! i) = map fst (frame_rows df ! i)"
  using assms
proof (induction cols arbitrary: df)
  case Nil then show ?case by simp
next
  case (Cons c cols)
  then obtain d1 where d1: "dump_column lib c df = Some d1" "dump_columns lib cols d1 = Some df'"
    by (auto split: option.splits)
  have "length (frame_rows d1) = length (frame_rows df)" by (rule dump_column_props(2) [OF d1(1)])
  with Cons.prems(2) have "i < length (frame_rows d1)" by simp
  with Cons.IH [OF d1(2)] have "map fst (frame_rows df' ! i) = map fst (frame_rows d1 ! i)" .
  with dump_column_keys [OF d1(1) Cons.prems(2)] show ?case by simp
qed

lemma dump_cell_result:
  assumes "dump_cell lib x = Some y"
  shows "(x = Cell PNone \<longrightarrow> y = Cell PNone) \<and>
     (x \<noteq> Cell PNone \<longrightarrow> (\<exists>s. cell_dumps lib x = Some s \<and> y = Cell (PStr s)))"
  using assms by (auto simp: dump_cell_def split: if_splits)

lemma distinct_json_columns: "distinct (json_columns t)"
  by (cases t) (simp_all add: json_columns_def)

lemma written_cells:
  assumes "written lib env t recs = Some df"
  shows "frame_columns df = record_keys recs"
    and "length (frame_rows df) = length recs"
    and "\<forall>i < length recs. \<forall>k \<in> set (frame_columns df).
       \<exists>raw y. raw = frame_cell env (map (\<lambda>r. map_of r k) recs) (map_of (recs ! i) k) \<and>
         map_of (frame_rows df ! i) k = Some y \<and>
         (k \<notin> set (json_columns t) \<longrightarrow> y = raw) \<and>
         (k \<in> set (json_columns t) \<and> raw = Cell PNone \<longrightarrow> y = Cell PNone) \<and>
         (k \<in> set (json_columns t) \<and> raw \<noteq> Cell PNone \<longrightarrow>
            (\<exists>s. cell_dumps lib raw = Some s \<and> y = Cell (PStr s)))"
proof -
  let ?raw = "data_frame env recs"
  from assms have d: "dump_columns lib (json_columns t) ?raw = Some df"
    by (simp add: written_def)
  note p = dump_columns_props [OF d distinct_json_columns]
  show c: "frame_columns df = record_keys recs" using p by (simp add: data_frame_props)
  show "length (frame_rows df) = length recs" using p by (simp add: data_frame_props)
  show "\<forall>i < length recs. \<forall>k \<in> set (frame_columns df).
       \<exists>raw y. raw = frame_cell env (map (\<lambda>r. map_of r k) recs) (map_of (recs ! i) k) \<and>
         map_of (frame_rows df ! i) k = Some y \<and>
         (k \<notin> set (json_columns t) \<longrightarrow> y = raw) \<and>
         (k \<in> set (json_columns t) \<and> raw = Cell PNone \<longrightarrow> y = Cell PNone) \<and>
         (k \<in> set (json_columns t) \<and> raw \<noteq> Cell PNone \<longrightarrow>
            (\<exists>s. cell_dumps lib raw = Some s \<and> y = Cell (PStr s)))"
  proof (intro allI impI ballI)
    fix i k assume i: "i < length recs" and k: "k \<in> set (frame_columns df)"
    let ?x = "frame_cell env (map (\<lambda>r. map_of r k) recs) (map_of (recs ! i) k)"
    from k c have kk: "k \<in> set (record_keys recs)" by simp
    with i have rawcell: "map_of (frame_rows ?raw ! i) k = Some ?x"
      by (simp add: data_frame_props)
    from i have i': "i < length (frame_rows ?raw)" by (simp add: data_frame_props)
    from p i' have m: "map_of (frame_rows df ! i) k =
        (if k \<in> set (json_columns t) \<and> k \<in> set (frame_columns ?raw)
         then (case map_of (frame_rows ?raw ! i) k of None \<Rightarrow> None | Some x \<Rightarrow> dump_cell lib x)
         else map_of (frame_rows ?raw ! i) k)"
      by blast
    show "\<exists>raw y. raw = ?x \<and>
         map_of (frame_rows df ! i) k = Some y \<and>
         (k \<notin> set (json_columns t) \<longrightarrow> y = raw) \<and>
         (k \<in> set (json_columns t) \<and> raw = Cell PNone \<longrightarrow> y = Cell PNone) \<and>
         (k \<in> set (json_columns t) \<and> raw \<noteq> Cell PNone \<longrightarrow>
            (\<exists>s. cell_dumps lib raw = Some s \<and> y = Cell (PStr s)))"
    proof (cases "k \<in> set (json_columns t)")
      case False
      with m rawcell show ?thesis by simp
    next
      case True
      with m rawcell kk have e: "map_of (frame_rows df ! i) k = dump_cell lib ?x"
        by (simp add: data_frame_props)
      have "map fst (frame_rows df ! i) = map fst (frame_rows ?raw ! i)"
        using dump_columns_keys [OF d i'] .
      moreover have "k \<in> set (map fst (frame_rows ?raw ! i))"
        using rawcell map_of_eq_None_iff [of "frame_rows ?raw ! i" k] by simp
      ultimately have "k \<in> set (map fst (frame_rows df ! i))" by (simp only:)
      then have "k \<in> fst ` set (frame_rows df ! i)" by simp
      then have "map_of (frame_rows df ! i) k \<noteq> None" by (simp add: map_of_eq_None_iff)
      with e have "dump_cell lib ?x \<noteq> None" by simp
      then obtain y where y: "dump_cell lib ?x = Some y" by auto
      with e dump_cell_result [OF y] True show ?thesis by auto
    qed
  qed
qed

lemma store_result:
  "store lib env t recs db =
     (case written lib env t recs of
        None \<Rightarrow> Inl TypeError
      | Some df \<Rightarrow>
          if to_sql_ok env (table_name t) df
          then Inr (case t of
                      Campaigns \<Rightarrow> db\<lparr>campaigns_table := df\<rparr>
                    | Adsets \<Rightarrow> db\<lparr>adsets_table := df\<rparr>
                    | Ads \<Rightarrow> db\<lparr>ads_table := df\<rparr>
                    | Insights \<Rightarrow> db\<lparr>insights_table := df\<rparr>)
          else Inl SQLAlchemyError)"
  by (cases t)
     (auto simp: store_def written_def json_columns_def table_name_def store_campaigns_def
        store_adsets_def store_ads_def store_insights_def Let_def split: option.splits)

lemma store_step:
  "table_frame t (case store lib env t' recs db of Inr db' \<Rightarrow> db' | Inl e \<Rightarrow> db) =
     (if t' = t \<and> store_succeeds lib env t' recs then the (written lib env t' recs)
      else table_frame t db)"
  by (cases t; cases t')
     (auto simp: store_result table_frame_def store_succeeds_def split: option.splits)

lemma run_stores_append:
  "run_stores lib env (xs @ ys) db = run_stores lib env ys (run_stores lib env xs db)"
  by (simp add: run_stores_def)

lemma run_stores_Cons:
  "run_stores lib env ((t, recs) # calls) db =
     run_stores lib env calls
       (case store lib env t recs db of Inr db' \<Rightarrow> db' | Inl e \<Rightarrow> db)"
  by (simp add: run_stores_def)

lemma run_stores_untouched:
  assumes "\<forall>(t', recs') \<in> set calls. t' = t \<longrightarrow> \<not> store_succeeds lib env t' recs'"
  shows "table_frame t (run_stores lib env calls db) = table_frame t db"
  using assms
proof (induction calls arbitrary: db)
  case Nil then show ?case by (simp add: run_stores_def)
next
  case (Cons call calls)
  obtain t' recs' where call: "call = (t', recs')" by (cases call)
  let ?db1 = "case store lib env t' recs' db of Inr db' \<Rightarrow> db' | Inl e \<Rightarrow> db"
  have "run_stores lib env (call # calls) db = run_stores lib env calls ?db1"
    by (simp only: call run_stores_Cons)
  moreover have "table_frame t ?db1 = table_frame t db"
    using Cons.prems call by (auto simp: store_step)
  moreover have "table_frame t (run_stores lib env calls ?db1) = table_frame t ?db1"
    using Cons.prems by (intro Cons.IH) simp
  ultimately show ?case by simp
qed

lemma retrieve_frame:
  "retrieve env t db = select_ordered env (table_frame t db) (order_column t)"
  by (cases t)
     (simp_all add: retrieve_def table_frame_def order_column_def get_campaigns_def get_adsets_def
        get_ads_def get_insights_def)

text \<open>
  C1, as stated, fails. What retrieval returns after a store call is not the list of records
  passed: the rows come back latest timestamp first and with the \<open>data\<close> column as JSON text;
  a record without the timestamp column cannot be retrieved at all, since the \<open>SELECT\<close> fails
  and \<open>get_campaigns\<close> returns \<open>[]\<close>; and when the most recent store call raises (here
  \<open>json.dumps\<close> on a timestamp), the rows of the call before it are still what is retrieved.
\<close>

theorem store_replaces_table_counterexample:
  "retrieve example_env Campaigns
      (run_stores example_lib example_env [(Campaigns, example_campaigns)] create_tables)
     \<noteq> map as_cells example_campaigns \<and>
   retrieve example_env Campaigns
      (run_stores example_lib example_env [(Campaigns, [[(''id'', PStr ''c1'')]])] create_tables)
     = [] \<and>
   retrieve example_env Campaigns
      (run_stores example_lib example_env
         [(Campaigns, example_campaigns),
          (Campaigns, [[(''id'', PStr ''bad''), (''created_time'', PDateTime 30),
                        (''data'', PDateTime 0)]])]
         create_tables)
     = [[(''id'', Cell (PStr ''c2'')), (''created_time'', Cell (PDateTime 20)), (''data'', Cell PNone)],
        [(''id'', Cell (PStr ''c1'')), (''created_time'', Cell (PDateTime 10)),
         (''data'', Cell (PStr ''{}''))]]"
  by code_simp

text \<open>
  C1, amended: after any sequence of store calls, retrieving a table returns what
  \<open>read_sql\<close> gives for the frame written by the most recent store call on that table that
  went through (neither \<open>json.dumps\<close> nor \<open>to_sql\<close> raised): its rows in the order of
  \<open>ORDER BY\<close> on the timestamp column, each as the database gives it back, or \<open>[]\<close> when the
  frame has no timestamp column. Nothing of an earlier call survives, and a call that raises
  changes nothing. Where the order is a rearrangement of the rows, the rows retrieved are,
  as a multiset, the rows written read back. The frame written has the keys of the records
  passed as its columns and one row per record, in which a cell is the cell pandas makes of
  the record's entry, serialised by \<open>json.dumps\<close> in the JSON columns unless it is \<open>None\<close>.
\<close>

theorem store_replaces_table:
  assumes "calls = before @ (t, recs) # after"
    and "written lib env t recs = Some df"
    and "to_sql_ok env (table_name t) df"
    and "\<forall>(t', recs') \<in> set after. t' = t \<longrightarrow> \<not> store_succeeds lib env t' recs'"
  shows "retrieve env t (run_stores lib env calls db) =
       (if order_column t \<in> set (frame_columns df)
        then map (read_row env df) (order_by env (order_column t) df) else []) \<and>
     ((\<forall>col f. mset (order_by env col f) = mset (frame_rows f)) \<and>
      order_column t \<in> set (frame_columns df) \<longrightarrow>
        mset (retrieve env t (run_stores lib env calls db))
          = image_mset (read_row env df) (mset (frame_rows df))) \<and>
     frame_columns df = record_keys recs \<and>
     set (frame_columns df) = (\<Union>r \<in> set recs. fst ` set r) \<and>
     length (frame_rows df) = length recs \<and>
     (\<forall>i < length recs. \<forall>k \<in> set (frame_columns df).
       \<exists>raw y. raw = frame_cell env (map (\<lambda>r. map_of r k) recs) (map_of (recs ! i) k) \<and>
         map_of (frame_rows df ! i) k = Some y \<and>
         (k \<notin> set (json_columns t) \<longrightarrow> y = raw) \<and>
         (k \<in> set (json_columns t) \<and> raw = Cell PNone \<longrightarrow> y = Cell PNone) \<and>
         (k \<in> set (json_columns t) \<and> raw \<noteq> Cell PNone \<longrightarrow>
            (\<exists>s. cell_dumps lib raw = Some s \<and> y = Cell (PStr s))))"
proof -
  let ?db1 = "run_stores lib env before db"
  let ?db2 = "case store lib env t recs ?db1 of Inr db' \<Rightarrow> db' | Inl e \<Rightarrow> ?db1"
  have ok: "store_succeeds lib env t recs"
    using assms(2,3) by (simp add: store_succeeds_def)
  have "run_stores lib env calls db = run_stores lib env after ?db2"
    by (simp only: assms(1) run_stores_append run_stores_Cons)
  then have "table_frame t (run_stores lib env calls db) = table_frame t ?db2"
    using run_stores_untouched [OF assms(4)] by simp
  also have "\<dots> = df" using ok assms(2) by (simp add: store_step)
  finally have tf: "table_frame t (run_stores lib env calls db) = df" .
  have r: "retrieve env t (run_stores lib env calls db) =
       (if order_column t \<in> set (frame_columns df)
        then map (read_row env df) (order_by env (order_column t) df) else [])"
    by (simp add: retrieve_frame tf select_ordered_def has_column_def)
  have m: "(\<forall>col f. mset (order_by env col f) = mset (frame_rows f)) \<and>
      order_column t \<in> set (frame_columns df) \<longrightarrow>
        mset (retrieve env t (run_stores lib env calls db))
          = image_mset (read_row env df) (mset (frame_rows df))"
  proof
    assume a: "(\<forall>col f. mset (order_by env col f) = mset (frame_rows f)) \<and>
      order_column t \<in> set (frame_columns df)"
    then have "mset (order_by env (order_column t) df) = mset (frame_rows df)" by blast
    then have "image_mset (read_row env df) (mset (order_by env (order_column t) df))
        = image_mset (read_row env df) (mset (frame_rows df))" by simp
    with a show "mset (retrieve env t (run_stores lib env calls db))
          = image_mset (read_row env df) (mset (frame_rows df))"
      unfolding r by simp
  qed
  note w = written_cells [OF assms(2)]
  have c: "set (frame_columns df) = (\<Union>r \<in> set recs. fst ` set r)"
    using w(1) by (simp add: set_record_keys)
  from r m w(1) c w(2) w(3) show ?thesis by blast
qed

theorem store_replaces_table_witness:
  "(\<forall>col f. mset (order_by example_env col f) = mset (frame_rows f)) \<and>
   store_succeeds example_lib example_env Campaigns example_campaigns \<and>
   retrieve example_env Campaigns (run_stores example_lib example_env example_calls create_tables)
     = [[(''id'', Cell (PStr ''c2'')), (''created_time'', Cell (PDateTime 20)), (''data'', Cell PNone)],
        [(''id'', Cell (PStr ''c1'')), (''created_time'', Cell (PDateTime 10)),
         (''data'', Cell (PStr ''{}''))]] \<and>
   mset (retrieve example_env Campaigns
           (run_stores example_lib example_env example_calls create_tables))
     = mset [[(''id'', Cell (PStr ''c1'')), (''created_time'', Cell (PDateTime 10)),
              (''data'', Cell (PStr ''{}''))],
             [(''id'', Cell (PStr ''c2'')), (''created_time'', Cell (PDateTime 20)),
              (''data'', Cell PNone)]]"
proof -
  let ?old = "(Campaigns, [[(''id'', PStr ''old''), (''created_time'', PDateTime 5), (''data'', PNone)]])"
  let ?ads = "(Ads, [[(''id'', PStr ''a1''), (''created_time'', PNone), (''data'', PDict [])]])"
  let ?bad = "(Campaigns, [[(''id'', PStr ''bad''), (''created_time'', PDateTime 30),
                            (''data'', PDateTime 0)]])"
  let ?rows = "[[(''id'', Cell (PStr ''c1'')), (''created_time'', Cell (PDateTime 10)),
                 (''data'', Cell (PStr ''{}''))],
                [(''id'', Cell (PStr ''c2'')), (''created_time'', Cell (PDateTime 20)),
                 (''data'', Cell PNone)]]"
  let ?df = "\<lparr>frame_columns = [''id'', ''created_time'', ''data''], frame_rows = ?rows\<rparr>"
  have perm: "\<forall>col f. mset (order_by example_env col f) = mset (frame_rows f)"
    by (simp add: example_env_def)
  have h1: "example_calls = [?old] @ (Campaigns, example_campaigns) # [?ads, ?bad]"
    by (simp add: example_calls_def)
  have h2: "written example_lib example_env Campaigns example_campaigns = Some ?df"
    by code_simp
  have h3: "to_sql_ok example_env (table_name Campaigns) ?df"
    by (simp add: example_env_def)
  have bad: "\<not> store_succeeds example_lib example_env Campaigns
      [[(''id'', PStr ''bad''), (''created_time'', PDateTime 30), (''data'', PDateTime 0)]]"
    by code_simp
  have h4: "\<forall>(t', recs') \<in> set [?ads, ?bad].
      t' = Campaigns \<longrightarrow> \<not> store_succeeds example_lib example_env t' recs'"
    using bad by simp
  have ok: "store_succeeds example_lib example_env Campaigns example_campaigns"
    using h2 h3 by (simp add: store_succeeds_def)
  have col: "order_column Campaigns \<in> set (frame_columns ?df)"
    by (simp add: order_column_def)
  have e: "map (read_row example_env ?df) (order_by example_env (order_column Campaigns) ?df)
     = [[(''id'', Cell (PStr ''c2'')), (''created_time'', Cell (PDateTime 20)), (''data'', Cell PNone)],
        [(''id'', Cell (PStr ''c1'')), (''created_time'', Cell (PDateTime 10)),
         (''data'', Cell (PStr ''{}''))]]"
    by code_simp
  from store_replaces_table [OF h1 h2 h3 h4, of create_tables]
  have r: "retrieve example_env Campaigns (run_stores example_lib example_env example_calls create_tables)
      = (if order_column Campaigns \<in> set (frame_columns ?df)
         then map (read_row example_env ?df) (order_by example_env (order_column Campaigns) ?df)
         else [])"
    and m: "(\<forall>col f. mset (order_by example_env col f) = mset (frame_rows f)) \<and>
      order_column Campaigns \<in> set (frame_columns ?df) \<longrightarrow>
        mset (retrieve example_env Campaigns
                (run_stores example_lib example_env example_calls create_tables))
          = image_mset (read_row example_env ?df) (mset (frame_rows ?df))"
    by blast+
  from r col e have r': "retrieve example_env Campaigns
      (run_stores example_lib example_env example_calls create_tables)
     = [[(''id'', Cell (PStr ''c2'')), (''created_time'', Cell (PDateTime 20)), (''data'', Cell PNone)],
        [(''id'', Cell (PStr ''c1'')), (''created_time'', Cell (PDateTime 10)),
         (''data'', Cell (PStr ''{}''))]]"
    by (simp only: if_True)
  from m perm col have "mset (retrieve example_env Campaigns
      (run_stores example_lib example_env example_calls create_tables))
     = image_mset (read_row example_env ?df) (mset (frame_rows ?df))"
    by blast
  then have m': "mset (retrieve example_env Campaigns
      (run_stores example_lib example_env example_calls create_tables)) = mset ?rows"
    by (simp add: example_env_def)
  from perm ok r' m' show ?thesis by blast
qed

section \<open>Properties of the fallback narration\<close>





end
